theory Spec2Isabelle
  imports Complex_Main "HOL-Library.AList"
begin

section \<open>Strings\<close>

text \<open>
  JavaScript strings are modelled as \<open>string\<close> (character lists). The helpers below
  are the string methods the layout code calls: \<open>String.prototype.includes\<close>,
  \<open>toLowerCase\<close> (on the letters A to Z; no other 8-bit character lower-cases to an
  ASCII letter, so the keyword tests of the sizing module are unaffected),
  \<open>split('::').pop()\<close>, \<open>replace(/::/g, '_')\<close> and the decimal rendering of a
  non-negative integer inside a template literal.
\<close>

definition starts_with :: "string \<Rightarrow> string \<Rightarrow> bool" where
  "starts_with p s = (take (length p) s = p)"

fun str_includes :: "string \<Rightarrow> string \<Rightarrow> bool" where
  "str_includes [] p = (p = [])"
| "str_includes (c # cs) p = (starts_with p (c # cs) \<or> str_includes cs p)"

definition lower_char :: "char \<Rightarrow> char" where
  "lower_char c =
     (case map_of (zip ''ABCDEFGHIJKLMNOPQRSTUVWXYZ'' ''abcdefghijklmnopqrstuvwxyz'') c of
        None \<Rightarrow> c
      | Some l \<Rightarrow> l)"

definition toLowerCase :: "string \<Rightarrow> string" where
  "toLowerCase s = map lower_char s"

text \<open>
  \<open>s.split('::').pop()\<close>: the text after the last occurrence of the separator, found by
  scanning from the left without overlaps (the whole string when there is none). The
  accumulator holds the current segment in reverse.
\<close>

fun last_segment_from :: "string \<Rightarrow> string \<Rightarrow> string" where
  "last_segment_from acc [] = rev acc"
| "last_segment_from acc (c # cs) =
     (if c = CHR '':'' \<and> cs \<noteq> [] \<and> hd cs = CHR '':''
      then last_segment_from [] (tl cs)
      else last_segment_from (c # acc) cs)"

definition last_segment :: "string \<Rightarrow> string" where
  "last_segment s = last_segment_from [] s"

text \<open>\<open>qualifiedName.replace(/::/g, '_')\<close>: every non-overlapping \<open>::\<close>, left to right.\<close>

fun toNodeId :: "string \<Rightarrow> string" where
  "toNodeId [] = []"
| "toNodeId [c] = [c]"
| "toNodeId (c # d # cs) =
     (if c = CHR '':'' \<and> d = CHR '':'' then CHR ''_'' # toNodeId cs
      else c # toNodeId (d # cs))"

text \<open>The decimal digits of a natural number, as a template literal prints it.\<close>

definition digit_char :: "nat \<Rightarrow> char" where
  "digit_char d = ''0123456789'' ! d"

fun string_of_nat :: "nat \<Rightarrow> string" where
  "string_of_nat n =
     (if n < 10 then [digit_char n] else string_of_nat (n div 10) @ [digit_char (n mod 10)])"

declare string_of_nat.simps [simp del]

section \<open>Sizing constants and the size calculator\<close>

text \<open>\<open>NODE_SIZING\<close>, in pixels.\<close>

definition headerHeight :: nat where "headerHeight = 60"
definition sectionHeaderHeight :: nat where "sectionHeaderHeight = 24"
definition itemHeight :: nat where "itemHeight = 26"
definition bottomPadding :: nat where "bottomPadding = 20"
definition childGap :: nat where "childGap = 20"
definition minHeight :: nat where "minHeight = 90"
definition minContainerHeight :: nat where "minContainerHeight = 200"
definition defaultWidth :: nat where "defaultWidth = 200"
definition minContainerWidth :: nat where "minContainerWidth = 300"

lemmas NODE_SIZING =
  headerHeight_def sectionHeaderHeight_def itemHeight_def bottomPadding_def childGap_def
  minHeight_def minContainerHeight_def defaultWidth_def minContainerWidth_def

record FeatureCounts =
  parts :: nat
  attrs :: nat
  actions :: nat

definition count_feature :: "string \<Rightarrow> FeatureCounts \<Rightarrow> FeatureCounts" where
  "count_feature f c =
     (let lower = toLowerCase f in
      if str_includes lower ''action'' \<or> str_includes lower '':action''
      then c\<lparr>actions := actions c + 1\<rparr>
      else if str_includes lower ''attribute'' \<or> str_includes lower ''attr''
              \<or> \<not> str_includes f '':''
      then c\<lparr>attrs := attrs c + 1\<rparr>
      else c\<lparr>parts := parts c + 1\<rparr>)"

definition groupFeatureCounts :: "string list \<Rightarrow> FeatureCounts" where
  "groupFeatureCounts features =
     fold count_feature features \<lparr>parts = 0, attrs = 0, actions = 0\<rparr>"

definition calculateContentHeight :: "string list \<Rightarrow> nat" where
  "calculateContentHeight features =
     (let c = groupFeatureCounts features;
          featureCount = length features
      in if featureCount = 0 then headerHeight + 10
         else
           let sectionCount = (if parts c > 0 then 1 else 0) + (if attrs c > 0 then 1 else 0)
                              + (if actions c > 0 then 1 else (0::nat));
               featureHeight = sectionCount * sectionHeaderHeight
                               + featureCount * itemHeight + bottomPadding
           in headerHeight + featureHeight)"

record Size =
  width :: nat
  height :: nat

definition calculateNodeSize :: "string list \<Rightarrow> bool \<Rightarrow> Size" where
  "calculateNodeSize features isContainer =
     (let contentHeight = calculateContentHeight features in
      if isContainer
      then \<lparr>width = minContainerWidth, height = max minContainerHeight (contentHeight + 60)\<rparr>
      else \<lparr>width = defaultWidth, height = max minHeight contentHeight\<rparr>)"

definition calculateElkTopPadding :: "string list \<Rightarrow> nat" where
  "calculateElkTopPadding features = calculateContentHeight features + childGap"

section \<open>Input types and view filters\<close>

datatype Direction = In | Out | InOut

fun direction_str :: "Direction \<Rightarrow> string" where
  "direction_str In = ''in''"
| "direction_str Out = ''out''"
| "direction_str InOut = ''inout''"

record DiagramSymbol =
  name :: string
  qualifiedName :: string
  nodeType :: string
  parent :: "string option"
  features :: "string list option"
  typedBy :: "string option"
  direction :: "Direction option"

record DiagramRelationship =
  rel_type :: string
  rel_source :: string
  rel_target :: string
  rel_label :: "string option"
  rel_multiplicity :: "string option"

record ViewConfig =
  view_type :: string
  view_direction :: "string option"
  includeNodeTypes :: "string list option"
  includeEdgeTypes :: "string list option"
  showNesting :: "bool option"

definition shouldShowNodeType :: "string \<Rightarrow> ViewConfig \<Rightarrow> bool" where
  "shouldShowNodeType t config =
     (case includeNodeTypes config of
        None \<Rightarrow> True
      | Some l \<Rightarrow> if length l = 0 then True else t \<in> set l)"

definition shouldShowEdgeType :: "string \<Rightarrow> ViewConfig \<Rightarrow> bool" where
  "shouldShowEdgeType t config =
     (case includeEdgeTypes config of
        None \<Rightarrow> True
      | Some l \<Rightarrow> if length l = 0 then True else t \<in> set l)"

section \<open>The general view: classification, aggregation, nodes and edges\<close>

datatype NodeCategory = Structural | Property | Port

definition getNodeCategory :: "string \<Rightarrow> NodeCategory" where
  "getNodeCategory t =
     (if str_includes t ''Port'' then Port
      else if t \<in> set [''AttributeUsage'', ''AttributeDef'', ''ReferenceUsage'', ''Feature'']
      then Property
      else Structural)"

text \<open>
  \<open>NODE_TYPES\<close> is a table of the diagram-core package; the layout code only asks
  whether a tag is one of its values, so the list of values is a parameter \<open>valid\<close>.
\<close>

definition isValidNodeType :: "string list \<Rightarrow> string \<Rightarrow> bool" where
  "isValidNodeType valid t = (t \<in> set valid)"

text \<open>
  JavaScript truthiness of an optional string (\<open>if (symbol.parent)\<close>): absent and empty
  are both false.
\<close>

definition truthy :: "string option \<Rightarrow> bool" where
  "truthy s = (case s of None \<Rightarrow> False | Some t \<Rightarrow> t \<noteq> [])"

text \<open>The display line of a property or port symbol, built in the source's three steps.\<close>

definition format_line :: "DiagramSymbol \<Rightarrow> string" where
  "format_line s =
     (let text0 = name s;
          text1 = (case direction s of None \<Rightarrow> text0
                   | Some d \<Rightarrow> direction_str d @ '' '' @ text0);
          text2 = (if truthy (typedBy s) then text1 @ '' : '' @ last_segment (the (typedBy s))
                   else text1)
      in text2)"

text \<open>\<open>m.get(k) || []\<close> on a map of string arrays.\<close>

definition get_or_empty :: "(string \<rightharpoonup> string list) \<Rightarrow> string \<Rightarrow> string list" where
  "get_or_empty m k = (case m k of None \<Rightarrow> [] | Some l \<Rightarrow> l)"

text \<open>
  \<open>if (!map.has(p)) map.set(p, []); map.get(p).push(text)\<close>: the array of \<open>p\<close> grows by
  one line at its end.
\<close>

definition push_line :: "(string \<rightharpoonup> string list) \<Rightarrow> string \<Rightarrow> string \<Rightarrow> (string \<rightharpoonup> string list)" where
  "push_line m p line = m(p \<mapsto> get_or_empty m p @ [line])"

type_synonym classify_state =
  "DiagramSymbol list \<times> (string \<rightharpoonup> string list) \<times> (string \<rightharpoonup> string list)"

text \<open>
  One round of the first loop of \<open>GeneralViewLayout.apply\<close>; the state is
  \<open>(structuralSymbols, propertiesByParent, portsByParent)\<close>.
\<close>

definition classify_step :: "ViewConfig \<Rightarrow> DiagramSymbol \<Rightarrow> classify_state \<Rightarrow> classify_state" where
  "classify_step config s st =
     (case st of (structuralSymbols, propertiesByParent, portsByParent) \<Rightarrow>
        if \<not> shouldShowNodeType (nodeType s) config then st
        else
          let category = getNodeCategory (nodeType s) in
          if category = Structural then (structuralSymbols @ [s], propertiesByParent, portsByParent)
          else if truthy (parent s) then
            (if category = Port
             then (structuralSymbols, propertiesByParent,
                   push_line portsByParent (the (parent s)) (format_line s))
             else (structuralSymbols,
                   push_line propertiesByParent (the (parent s)) (format_line s),
                   portsByParent))
          else st)"

record Position =
  pos_x :: real
  pos_y :: real

record Style =
  style_width :: "nat option"
  style_height :: "nat option"

record LayoutNodeData =
  data_name :: string
  data_qualifiedName :: "string option"
  data_features :: "string list option"
  data_typedBy :: "string option"
  data_direction :: "Direction option"

text \<open>The diagram surface's node object, with the fields the layout code reads or writes.\<close>

record Node =
  node_id :: string
  node_type :: string
  node_position :: Position
  node_data :: LayoutNodeData
  node_style :: "Style option"
  node_measured :: "Style option"
  node_parentId :: "string option"
  node_extent :: "string option"

record Edge =
  edge_id :: string
  edge_source :: string
  edge_target :: string
  edge_type :: string
  edge_label :: "string option"

text \<open>The merged content of one structural symbol: \<open>allFeatures\<close> in \<open>buildNodes\<close>.\<close>

definition all_features ::
  "(string \<rightharpoonup> string list) \<Rightarrow> (string \<rightharpoonup> string list) \<Rightarrow> DiagramSymbol \<Rightarrow> string list" where
  "all_features propertiesByParent portsByParent s =
     (let qn = qualifiedName s;
          properties = get_or_empty propertiesByParent qn;
          ports = get_or_empty portsByParent qn
      in filter (\<lambda>f. f \<noteq> [])
           (properties
            @ (if length ports > 0 then ''---'' # ports else [])
            @ (case features s of None \<Rightarrow> [] | Some fs \<Rightarrow> fs)))"

text \<open>
  The body of the second loop of \<open>buildNodes\<close>; \<open>nodeIds\<close> and \<open>hasChildren\<close> are the
  two sets computed before the loop.
\<close>

definition build_node ::
  "string list \<Rightarrow> string set \<Rightarrow> string set \<Rightarrow> (string \<rightharpoonup> string list)
     \<Rightarrow> (string \<rightharpoonup> string list) \<Rightarrow> DiagramSymbol \<Rightarrow> Node" where
  "build_node valid nodeIds hasChildren propertiesByParent portsByParent s =
     (let ident = toNodeId (qualifiedName s);
          parentId = (if truthy (parent s) then Some (toNodeId (the (parent s))) else None);
          ntype = (if \<not> isValidNodeType valid (nodeType s) then ''default'' else nodeType s);
          allFeatures = all_features propertiesByParent portsByParent s;
          isContainer = (ident \<in> hasChildren);
          sz = calculateNodeSize allFeatures isContainer;
          node = \<lparr>node_id = ident,
                  node_type = ntype,
                  node_position = \<lparr>pos_x = 0, pos_y = 0\<rparr>,
                  node_data = \<lparr>data_name = name s,
                               data_qualifiedName = Some (qualifiedName s),
                               data_features = (if length allFeatures > 0 then Some allFeatures
                                                else None),
                               data_typedBy = typedBy s,
                               data_direction = direction s\<rparr>,
                  node_style = Some \<lparr>style_width = Some (width sz),
                                     style_height = Some (height sz)\<rparr>,
                  node_measured = None,
                  node_parentId = None,
                  node_extent = None\<rparr>
      in if truthy parentId \<and> the parentId \<in> nodeIds
         then node\<lparr>node_parentId := parentId, node_extent := Some ''parent''\<rparr>
         else node)"

definition buildNodes ::
  "string list \<Rightarrow> DiagramSymbol list \<Rightarrow> (string \<rightharpoonup> string list)
     \<Rightarrow> (string \<rightharpoonup> string list) \<Rightarrow> Node list" where
  "buildNodes valid symbols propertiesByParent portsByParent =
     (let nodeIds = set (map (\<lambda>s. toNodeId (qualifiedName s)) symbols);
          hasChildren = fold (\<lambda>s acc. if truthy (parent s)
                                       then insert (toNodeId (the (parent s))) acc else acc)
                          symbols {}
      in map (build_node valid nodeIds hasChildren propertiesByParent portsByParent) symbols)"

text \<open>
  The loop of \<open>buildEdges\<close>, over the relationships paired with their index; an edge is
  pushed when both encoded endpoints are ids of nodes.
\<close>

definition make_edge :: "nat \<Rightarrow> DiagramRelationship \<Rightarrow> Edge" where
  "make_edge i rel =
     \<lparr>edge_id = ''edge_'' @ string_of_nat i,
      edge_source = toNodeId (rel_source rel),
      edge_target = toNodeId (rel_target rel),
      edge_type = rel_type rel,
      edge_label = Some (rel_type rel)\<rparr>"

definition edge_step :: "string set \<Rightarrow> nat \<times> DiagramRelationship \<Rightarrow> Edge list \<Rightarrow> Edge list" where
  "edge_step nodeIds ir edges =
     (case ir of (i, rel) \<Rightarrow>
        let sourceId = toNodeId (rel_source rel);
            targetId = toNodeId (rel_target rel)
        in if sourceId \<in> nodeIds \<and> targetId \<in> nodeIds
           then edges @ [make_edge i rel]
           else edges)"

definition buildEdges :: "DiagramRelationship list \<Rightarrow> Node list \<Rightarrow> Edge list" where
  "buildEdges relationships nodes =
     (let nodeIds = set (map node_id nodes)
      in fold (edge_step nodeIds) (enumerate 0 relationships) [])"

text \<open>\<open>filteredRelationships\<close>: the relationships whose type passes the edge-type filter.\<close>

definition filteredRelationships :: "ViewConfig \<Rightarrow> DiagramRelationship list \<Rightarrow> DiagramRelationship list" where
  "filteredRelationships config relationships =
     filter (\<lambda>r. shouldShowEdgeType (rel_type r) config) relationships"

text \<open>
  Steps 1 to 3 of \<open>GeneralViewLayout.apply\<close>: the graph handed to the layout engine.
  Step 4 only repositions and resizes these nodes; the edges are returned as built here.
\<close>

definition apply_build ::
  "string list \<Rightarrow> DiagramSymbol list \<Rightarrow> DiagramRelationship list \<Rightarrow> ViewConfig
     \<Rightarrow> Node list \<times> Edge list" where
  "apply_build valid symbols relationships config =
     (case fold (classify_step config) symbols ([], Map.empty, Map.empty) of
        (structuralSymbols, propertiesByParent, portsByParent) \<Rightarrow>
          let nodes = buildNodes valid structuralSymbols propertiesByParent portsByParent;
              edges = buildEdges (filteredRelationships config relationships) nodes
          in (nodes, edges))"

section \<open>Level and grid layout\<close>

text \<open>
  The view layouts work on the diagram-core node and edge objects. A node is an
  extensible record: its \<open>more\<close> part stands for every field the layout code does not
  name (style, parentId and so on), which an object spread copies unchanged.
\<close>

record DiagramNode =
  dn_id :: string
  dn_type :: "string option"
  dn_position :: Position
  dn_data :: "(string \<times> string) list"

record DiagramEdge =
  de_id :: string
  de_source :: string
  de_target :: string
  de_type :: "string option"
  de_label :: "string option"

datatype LayoutDirection = TB | LR

text \<open>\<open>LayoutOptions\<close>: an absent key is \<open>None\<close>. Numbers are reals; rounding is not modelled.\<close>

record LayoutOptions =
  nodeWidth :: "real option"
  nodeHeight :: "real option"
  horizontalGap :: "real option"
  verticalGap :: "real option"
  layout_direction :: "LayoutDirection option"

text \<open>\<open>{ ...DEFAULT_OPTIONS, ...opts }\<close>, field by field.\<close>

definition opt_nodeWidth :: "LayoutOptions \<Rightarrow> real" where
  "opt_nodeWidth opts = (case nodeWidth opts of None \<Rightarrow> 160 | Some v \<Rightarrow> v)"

definition opt_nodeHeight :: "LayoutOptions \<Rightarrow> real" where
  "opt_nodeHeight opts = (case nodeHeight opts of None \<Rightarrow> 80 | Some v \<Rightarrow> v)"

definition opt_horizontalGap :: "LayoutOptions \<Rightarrow> real" where
  "opt_horizontalGap opts = (case horizontalGap opts of None \<Rightarrow> 80 | Some v \<Rightarrow> v)"

definition opt_verticalGap :: "LayoutOptions \<Rightarrow> real" where
  "opt_verticalGap opts = (case verticalGap opts of None \<Rightarrow> 100 | Some v \<Rightarrow> v)"

definition opt_direction :: "LayoutOptions \<Rightarrow> LayoutDirection" where
  "opt_direction opts = (case layout_direction opts of None \<Rightarrow> TB | Some d \<Rightarrow> d)"

text \<open>
  A JavaScript \<open>Map\<close> with string keys is an association list in insertion order:
  \<open>AList.update\<close> overwrites the value of a key in place and appends a new key, as
  \<open>Map.prototype.set\<close> does, and \<open>map_of\<close> is \<open>get\<close>.
\<close>

type_synonym adjacency = "(string \<times> string list) list"
type_synonym level_map = "(string \<times> nat) list"

text \<open>\<open>graph.get(id) ?? []\<close>.\<close>

definition neighbors :: "adjacency \<Rightarrow> string \<Rightarrow> string list" where
  "neighbors graph ident = (case map_of graph ident of None \<Rightarrow> [] | Some ts \<Rightarrow> ts)"

definition buildGraph :: "DiagramEdge list \<Rightarrow> adjacency" where
  "buildGraph edges =
     fold (\<lambda>e graph. AList.update (de_source e) (neighbors graph (de_source e) @ [de_target e]) graph)
       edges []"

text \<open>The body of the inner loop of the traversal, for one neighbour of a node at \<open>level\<close>.\<close>

definition visit :: "nat \<Rightarrow> string \<Rightarrow> (string \<times> nat) list \<times> level_map \<Rightarrow> (string \<times> nat) list \<times> level_map" where
  "visit level neighbor st =
     (case st of (queue, levels) \<Rightarrow>
        if map_of levels neighbor = None
        then (queue @ [(neighbor, level + 1)], AList.update neighbor (level + 1) levels)
        else (queue, levels))"

text \<open>
  The traversal loop ends because every push onto the queue assigns a level to an id
  that had none, and only ids that occur as a neighbour in the graph are ever pushed.
\<close>

definition targets :: "adjacency \<Rightarrow> string set" where
  "targets graph = (\<Union>ts \<in> snd ` set graph. set ts)"

lemma finite_targets: "finite (targets graph)"
  by (simp add: targets_def)

lemma neighbors_targets: "set (neighbors graph v) \<subseteq> targets graph"
proof (cases "map_of graph v")
  case None
  then show ?thesis by (simp add: neighbors_def)
next
  case (Some ts)
  then have "(v, ts) \<in> set graph" by (rule map_of_SomeD)
  then have "ts \<in> snd ` set graph" by force
  with Some show ?thesis by (auto simp: neighbors_def targets_def)
qed

lemma dom_update_key: "fst ` set (AList.update k v al) = insert k (fst ` set al)"
  by (induction al) auto

lemma visit_pair:
  "visit level n (q, l) =
     (if map_of l n = None then (q @ [(n, level + 1)], AList.update n (level + 1) l) else (q, l))"
  by (simp add: visit_def)

lemma visit_measure:
  assumes "set ns \<subseteq> T" "finite T"
  shows "length (fst (fold (visit level) ns (q, l))) + 2 * card (T - fst ` set (snd (fold (visit level) ns (q, l))))
           \<le> length q + 2 * card (T - fst ` set l)"
  using assms(1)
proof (induction ns arbitrary: q l)
  case Nil
  then show ?case by simp
next
  case (Cons n ns)
  show ?case
  proof (cases "map_of l n = None")
    case True
    then have nk: "n \<notin> fst ` set l" by (simp add: map_of_eq_None_iff)
    from Cons.prems have nT: "n \<in> T" by simp
    have "T - fst ` set (AList.update n (level + 1) l) = (T - fst ` set l) - {n}"
      by (auto simp: dom_update_key)
    moreover have "n \<in> T - fst ` set l" using nk nT by simp
    ultimately have "card (T - fst ` set (AList.update n (level + 1) l)) < card (T - fst ` set l)"
      using assms(2) card_Diff1_less [of "T - fst ` set l" n] by simp
    moreover have "length (fst (fold (visit level) ns (q @ [(n, level + 1)], AList.update n (level + 1) l)))
        + 2 * card (T - fst ` set (snd (fold (visit level) ns (q @ [(n, level + 1)], AList.update n (level + 1) l))))
        \<le> length (q @ [(n, level + 1)]) + 2 * card (T - fst ` set (AList.update n (level + 1) l))"
      using Cons.prems by (intro Cons.IH) simp
    ultimately show ?thesis using True by (simp add: visit_pair)
  next
    case False
    then show ?thesis using Cons.IH [of q l] Cons.prems by (auto simp: visit_pair)
  qed
qed

function bfs :: "adjacency \<Rightarrow> (string \<times> nat) list \<Rightarrow> level_map \<Rightarrow> level_map" where
  "bfs graph [] levels = levels"
| "bfs graph ((ident, level) # rest) levels =
     (case fold (visit level) (neighbors graph ident) (rest, levels) of
        (queue', levels') \<Rightarrow> bfs graph queue' levels')"
  by pat_completeness auto

termination bfs
proof (relation "measure (\<lambda>(graph, queue, levels). length queue + 2 * card (targets graph - fst ` set levels))")
  show "wf (measure (\<lambda>(graph, queue, levels). length queue + 2 * card (targets graph - fst ` set levels)))"
    by simp
next
  fix graph ident level rest levels x y
  assume "(x, y) = fold (visit level) (neighbors graph ident) (rest, levels)"
  then have eq: "fold (visit level) (neighbors graph ident) (rest, levels) = (x, y)" by simp
  from visit_measure [OF neighbors_targets finite_targets, of level graph ident rest levels]
  show "((graph, x, y), (graph, (ident, level) # rest, levels))
      \<in> measure (\<lambda>(graph, queue, levels). length queue + 2 * card (targets graph - fst ` set levels))"
    by (simp add: eq)
qed

text \<open>
  \<open>calculateLevels\<close> in its three stages: the start nodes, the traversal, and the level
  of the nodes the traversal did not reach. \<open>startNodeIds\<close> is \<open>None\<close> when the caller
  passes none.
\<close>

definition start_ids :: "('a DiagramNode_scheme) list \<Rightarrow> DiagramEdge list \<Rightarrow> string list option \<Rightarrow> string list" where
  "start_ids nodes edges startNodeIds =
     (let hasIncoming = set (map de_target edges)
      in case startNodeIds of
           Some ids \<Rightarrow> ids
         | None \<Rightarrow> map dn_id (filter (\<lambda>n. dn_id n \<notin> hasIncoming) nodes))"

definition traverse :: "('a DiagramNode_scheme) list \<Rightarrow> DiagramEdge list \<Rightarrow> string list option \<Rightarrow> level_map" where
  "traverse nodes edges startNodeIds =
     (let graph = buildGraph edges;
          starts = start_ids nodes edges startNodeIds;
          queue = map (\<lambda>ident. (ident, 0)) starts;
          levels = fold (\<lambda>ident levels. AList.update ident 0 levels) starts []
      in bfs graph queue levels)"

text \<open>\<open>Math.max(0, ...levels.values())\<close>.\<close>

definition max_level :: "level_map \<Rightarrow> nat" where
  "max_level levels = fold max (map snd levels) 0"

definition calculateLevels :: "('a DiagramNode_scheme) list \<Rightarrow> DiagramEdge list \<Rightarrow> string list option \<Rightarrow> level_map" where
  "calculateLevels nodes edges startNodeIds =
     (let levels = traverse nodes edges startNodeIds;
          maxLevel = max_level levels
      in fold (\<lambda>n levels. if map_of levels (dn_id n) = None
                            then AList.update (dn_id n) maxLevel levels else levels)
           nodes levels)"

text \<open>\<open>levels.get(node.id) ?? 0\<close>.\<close>

definition level_of :: "level_map \<Rightarrow> 'a DiagramNode_scheme \<Rightarrow> nat" where
  "level_of levels n = (case map_of levels (dn_id n) of None \<Rightarrow> 0 | Some l \<Rightarrow> l)"

text \<open>
  \<open>byLevel\<close> groups the node objects by level. The elements of the input array are
  taken to be distinct objects, so an object is identified by its position in the array
  and \<open>indexOf\<close> searches for that position; it answers \<open>-1\<close> when there is none.
\<close>

definition group_step :: "level_map \<Rightarrow> nat \<times> 'a DiagramNode_scheme \<Rightarrow> (nat \<rightharpoonup> nat list) \<Rightarrow> (nat \<rightharpoonup> nat list)" where
  "group_step levels ixn byLevel =
     (case ixn of (ix, n) \<Rightarrow>
        let lvl = level_of levels n
        in byLevel(lvl \<mapsto> (case byLevel lvl of None \<Rightarrow> [] | Some l \<Rightarrow> l) @ [ix]))"

fun indexOf :: "nat list \<Rightarrow> nat \<Rightarrow> int" where
  "indexOf [] x = -1"
| "indexOf (y # ys) x =
     (if x = y then 0 else (let r = indexOf ys x in if r < 0 then -1 else r + 1))"

definition level_position ::
  "LayoutOptions \<Rightarrow> level_map \<Rightarrow> (nat \<rightharpoonup> nat list) \<Rightarrow> nat \<times> 'a DiagramNode_scheme \<Rightarrow> Position" where
  "level_position opts levels byLevel ixn =
     (case ixn of (ix, node) \<Rightarrow>
        let level = level_of levels node;
            levelNodes = (case byLevel level of None \<Rightarrow> [] | Some l \<Rightarrow> l);
            index = indexOf levelNodes ix;
            totalWidth = real (length levelNodes) * opt_nodeWidth opts
                         + (real (length levelNodes) - 1) * opt_horizontalGap opts;
            x = real_of_int index * (opt_nodeWidth opts + opt_horizontalGap opts)
                - totalWidth / 2 + 300;
            y = real level * (opt_nodeHeight opts + opt_verticalGap opts) + 50
        in if opt_direction opts = TB then \<lparr>pos_x = x, pos_y = y\<rparr>
           else \<lparr>pos_x = y, pos_y = x\<rparr>)"

text \<open>
  \<open>applyLevelLayout\<close>. The source also computes the maximum level here and never reads
  it; the model leaves that binding out.
\<close>

definition applyLevelLayout ::
  "('a DiagramNode_scheme) list \<Rightarrow> DiagramEdge list \<Rightarrow> LayoutOptions \<Rightarrow> ('a DiagramNode_scheme) list" where
  "applyLevelLayout nodes edges opts =
     (let levels = calculateLevels nodes edges None;
          byLevel = fold (group_step levels) (enumerate 0 nodes) Map.empty
      in map (\<lambda>ixn. (snd ixn)\<lparr>dn_position := level_position opts levels byLevel ixn\<rparr>)
           (enumerate 0 nodes))"

text \<open>\<open>Math.ceil(Math.sqrt(n))\<close>.\<close>

definition grid_columns :: "nat \<Rightarrow> nat" where
  "grid_columns n = nat \<lceil>sqrt (real n)\<rceil>"

definition applyGridLayout :: "('a DiagramNode_scheme) list \<Rightarrow> LayoutOptions \<Rightarrow> ('a DiagramNode_scheme) list" where
  "applyGridLayout nodes opts =
     (let columns = grid_columns (length nodes)
      in map (\<lambda>ixn. case ixn of (i, node) \<Rightarrow>
                node\<lparr>dn_position :=
                  \<lparr>pos_x = real (i mod columns) * (opt_nodeWidth opts + opt_horizontalGap opts),
                   pos_y = real (i div columns) * (opt_nodeHeight opts + opt_verticalGap opts)\<rparr>\<rparr>)
           (enumerate 0 nodes))"

section \<open>The hierarchical engine adapter\<close>

text \<open>
  The request handed to the layout engine. A node of the request carries layout options
  and children only when it has children; the root is the graph itself.
\<close>

datatype ElkNode =
  ElkNode (elk_id: string) (elk_width: nat) (elk_height: nat)
    (elk_layoutOptions: "(string \<times> string) list option")
    (elk_children: "ElkNode list option")

record ElkExtendedEdge =
  elkedge_id :: string
  elkedge_sources :: "string list"
  elkedge_targets :: "string list"

record ElkGraph =
  graph_id :: string
  graph_layoutOptions :: "(string \<times> string) list"
  graph_children :: "ElkNode list"
  graph_edges :: "ElkExtendedEdge list"

text \<open>\<open>a || b || 180\<close> on optional numbers: absent and zero are falsy.\<close>

definition truthy_num :: "nat option \<Rightarrow> bool" where
  "truthy_num v = (case v of None \<Rightarrow> False | Some n \<Rightarrow> n \<noteq> 0)"

definition number_or :: "nat option \<Rightarrow> nat option \<Rightarrow> nat \<Rightarrow> nat" where
  "number_or a b c = (if truthy_num a then the a else if truthy_num b then the b else c)"

definition node_features :: "Node \<Rightarrow> string list" where
  "node_features node = (case data_features (node_data node) of None \<Rightarrow> [] | Some fs \<Rightarrow> fs)"

text \<open>The layout options of a node with children; \<open>topPadding\<close> is printed into the padding.\<close>

definition container_options :: "nat \<Rightarrow> (string \<times> string) list" where
  "container_options topPadding =
     [(''elk.algorithm'', ''rectpacking''),
      (''elk.spacing.nodeNode'', ''30''),
      (''elk.padding'', ''[top='' @ string_of_nat topPadding @ '',left=20,bottom=30,right=20]''),
      (''elk.rectpacking.widthApproximation.targetWidth'', ''600''),
      (''elk.nodeSize.constraints'', ''MINIMUM_SIZE'')]"

text \<open>\<open>childrenMap\<close>: the nodes grouped by \<open>parentId\<close>, which is absent for a root.\<close>

definition children_of :: "(string option \<rightharpoonup> Node list) \<Rightarrow> string option \<Rightarrow> Node list" where
  "children_of childrenMap k = (case childrenMap k of None \<Rightarrow> [] | Some ns \<Rightarrow> ns)"

definition group_child :: "Node \<Rightarrow> (string option \<rightharpoonup> Node list) \<Rightarrow> (string option \<rightharpoonup> Node list)" where
  "group_child node m = m(node_parentId node \<mapsto> children_of m (node_parentId node) @ [node])"

definition build_childrenMap :: "Node list \<Rightarrow> (string option \<rightharpoonup> Node list)" where
  "build_childrenMap nodes = fold group_child nodes Map.empty"

text \<open>
  \<open>buildElkNode\<close> calls itself on the children of the node. The recursion depth is
  bounded by \<open>fuel\<close>; \<open>None\<close> is a recursion that does not come back within it.
\<close>

fun buildElkNode :: "nat \<Rightarrow> (string option \<rightharpoonup> Node list) \<Rightarrow> Node \<Rightarrow> ElkNode option" where
  "buildElkNode 0 childrenMap node = None"
| "buildElkNode (Suc fuel) childrenMap node =
     (let children = children_of childrenMap (Some (node_id node));
          w = number_or (case node_style node of None \<Rightarrow> None | Some st \<Rightarrow> style_width st)
                (case node_measured node of None \<Rightarrow> None | Some st \<Rightarrow> style_width st) 180;
          h = number_or (case node_style node of None \<Rightarrow> None | Some st \<Rightarrow> style_height st)
                (case node_measured node of None \<Rightarrow> None | Some st \<Rightarrow> style_height st) 80;
          topPadding = calculateElkTopPadding (node_features node)
      in if length children > 0
         then (case those (map (buildElkNode fuel childrenMap) children) of
                 None \<Rightarrow> None
               | Some cs \<Rightarrow> Some (ElkNode (node_id node) w h
                                    (Some (container_options topPadding)) (Some cs)))
         else Some (ElkNode (node_id node) w h None None))"

definition buildElkGraph ::
  "nat \<Rightarrow> Node list \<Rightarrow> Edge list \<Rightarrow> (string \<times> string) list \<Rightarrow> ElkGraph option" where
  "buildElkGraph fuel nodes edges options =
     (let childrenMap = build_childrenMap nodes;
          rootNodes = children_of childrenMap None;
          nodeIds = set (map node_id nodes);
          elkEdges = map (\<lambda>e. \<lparr>elkedge_id = edge_id e, elkedge_sources = [edge_source e],
                                 elkedge_targets = [edge_target e]\<rparr>)
                       (filter (\<lambda>e. edge_source e \<in> nodeIds \<and> edge_target e \<in> nodeIds) edges)
      in case those (map (buildElkNode fuel childrenMap) rootNodes) of
           None \<Rightarrow> None
         | Some elkChildren \<Rightarrow>
             Some \<lparr>graph_id = ''root'', graph_layoutOptions = options,
                   graph_children = elkChildren, graph_edges = elkEdges\<rparr>)"

text \<open>The nodes of the request below (and including) a node.\<close>

inductive subnode :: "ElkNode \<Rightarrow> ElkNode \<Rightarrow> bool" where
  subnode_self: "subnode e e"
| subnode_child: "elk_children e = Some cs \<Longrightarrow> c \<in> set cs \<Longrightarrow> subnode x c \<Longrightarrow> subnode x e"

section \<open>Size calculator: properties\<close>

lemma section_count_single:
  "(let c = groupFeatureCounts [f] in
     (if parts c > 0 then 1 else 0) + (if attrs c > 0 then 1 else 0)
     + (if actions c > 0 then 1 else (0::nat))) = 1"
  by (simp add: groupFeatureCounts_def count_feature_def Let_def)

lemma content_height_empty: "calculateContentHeight [] = headerHeight + 10"
  by (simp add: calculateContentHeight_def Let_def)

lemma content_height_single:
  "calculateContentHeight [f] = headerHeight + sectionHeaderHeight + itemHeight + bottomPadding"
  using section_count_single [of f]
  by (simp add: calculateContentHeight_def Let_def)

text \<open>
  Claim C4, as stated: a non-container node with zero content lines has the header-only
  height, and the first content line raises the computed height by at least one section
  header plus one item. The second half fails on the node height: the empty node is
  lifted to the minimum height 90, the one-line node is 130 high, and the difference 40
  is below \<open>sectionHeaderHeight + itemHeight = 50\<close>.
\<close>

theorem C4_first_line_increase_counterexample:
  "\<not> (height (calculateNodeSize [] False) + (sectionHeaderHeight + itemHeight)
        \<le> height (calculateNodeSize [''x''] False))"
  by (simp add: calculateNodeSize_def content_height_empty content_height_single NODE_SIZING)

text \<open>
  Claim C4, amended: with zero content lines the content height is the header-only
  constant \<open>headerHeight + 10\<close> and the non-container node height is the minimum height;
  the first content line (whatever its text) raises the content height by one section
  header plus one item plus 10, and the non-container node height by exactly 40.
\<close>

theorem C4_header_only_and_first_line:
  "calculateContentHeight [] = headerHeight + 10
   \<and> height (calculateNodeSize [] False) = minHeight
   \<and> calculateContentHeight [f] = calculateContentHeight [] + sectionHeaderHeight + itemHeight + 10
   \<and> height (calculateNodeSize [f] False) = height (calculateNodeSize [] False) + 40"
  by (simp add: calculateNodeSize_def content_height_empty content_height_single NODE_SIZING)

section \<open>Graph builder: properties\<close>

text \<open>
  The symbols that become nodes: those passing the node-type filter and classified
  structural, in input order.
\<close>

definition retained :: "ViewConfig \<Rightarrow> DiagramSymbol list \<Rightarrow> DiagramSymbol list" where
  "retained config symbols =
     filter (\<lambda>s. shouldShowNodeType (nodeType s) config
                 \<and> getNodeCategory (nodeType s) = Structural) symbols"

text \<open>
  The display lines of the children of one category that a parent with qualified name
  \<open>qn\<close> collects: the shown symbols of that category whose \<open>parent\<close> is \<open>qn\<close> (an
  empty parent name is no parent), in input order.
\<close>

definition child_lines :: "ViewConfig \<Rightarrow> NodeCategory \<Rightarrow> string \<Rightarrow> DiagramSymbol list \<Rightarrow> string list" where
  "child_lines config cat qn symbols =
     map format_line
       (filter (\<lambda>s. shouldShowNodeType (nodeType s) config
                    \<and> getNodeCategory (nodeType s) = cat
                    \<and> qn \<noteq> [] \<and> parent s = Some qn) symbols)"

lemma get_or_empty_push:
  "get_or_empty (push_line m p l) k = (if k = p then get_or_empty m p @ [l] else get_or_empty m k)"
  by (simp add: get_or_empty_def push_line_def)

lemma truthy_Some: "truthy x \<longleftrightarrow> (\<exists>t. x = Some t \<and> t \<noteq> [])"
  by (cases x) (auto simp: truthy_def)

lemma fold_classify_structural:
  "fst (fold (classify_step config) symbols (st, pm, qm)) = st @ retained config symbols"
proof (induction symbols arbitrary: st pm qm)
  case Nil
  then show ?case by (simp add: retained_def)
next
  case (Cons s symbols)
  show ?case
    using Cons.IH by (simp add: classify_step_def retained_def Let_def)
qed

lemma fold_classify_properties:
  "get_or_empty (fst (snd (fold (classify_step config) symbols (st, pm, qm)))) k
     = get_or_empty pm k @ child_lines config Property k symbols"
proof (induction symbols arbitrary: st pm qm)
  case Nil
  then show ?case by (simp add: child_lines_def)
next
  case (Cons s symbols)
  have cat: "getNodeCategory (nodeType s) \<noteq> Structural \<Longrightarrow> getNodeCategory (nodeType s) \<noteq> Port
     \<Longrightarrow> getNodeCategory (nodeType s) = Property"
    by (cases "getNodeCategory (nodeType s)") auto
  show ?case
    using Cons.IH cat
    by (auto simp: classify_step_def child_lines_def Let_def get_or_empty_push truthy_Some)
qed

lemma fold_classify_ports:
  "get_or_empty (snd (snd (fold (classify_step config) symbols (st, pm, qm)))) k
     = get_or_empty qm k @ child_lines config Port k symbols"
proof (induction symbols arbitrary: st pm qm)
  case Nil
  then show ?case by (simp add: child_lines_def)
next
  case (Cons s symbols)
  show ?case
    using Cons.IH
    by (auto simp: classify_step_def child_lines_def Let_def get_or_empty_push truthy_Some)
qed

lemma buildNodes_ids:
  "map node_id (buildNodes valid symbols pm qm) = map (\<lambda>s. toNodeId (qualifiedName s)) symbols"
  by (simp add: buildNodes_def build_node_def Let_def)

definition endpoints_ok :: "string set \<Rightarrow> DiagramRelationship \<Rightarrow> bool" where
  "endpoints_ok ids rel = (toNodeId (rel_source rel) \<in> ids \<and> toNodeId (rel_target rel) \<in> ids)"

lemma fold_edge_step:
  "fold (edge_step ids) irs acc
     = acc @ map (\<lambda>ir. make_edge (fst ir) (snd ir)) (filter (\<lambda>ir. endpoints_ok ids (snd ir)) irs)"
  by (induction irs arbitrary: acc) (simp_all add: edge_step_def Let_def endpoints_ok_def split: prod.splits)

lemma buildEdges_eq:
  "buildEdges rels nodes
     = map (\<lambda>ir. make_edge (fst ir) (snd ir))
         (filter (\<lambda>ir. endpoints_ok (set (map node_id nodes)) (snd ir)) (enumerate 0 rels))"
  by (simp add: buildEdges_def Let_def fold_edge_step)

text \<open>Reading decimal digits back, to see that distinct indices give distinct edge ids.\<close>

fun nat_of_digits :: "nat \<Rightarrow> string \<Rightarrow> nat" where
  "nat_of_digits acc [] = acc"
| "nat_of_digits acc (c # cs) = nat_of_digits (10 * acc + (of_char c - 48)) cs"

lemma nat_of_digits_append: "nat_of_digits acc (xs @ ys) = nat_of_digits (nat_of_digits acc xs) ys"
  by (induction xs arbitrary: acc) simp_all

lemma of_char_digit: "d < 10 \<Longrightarrow> (of_char (digit_char d) :: nat) = 48 + d"
  by (auto simp: digit_char_def less_Suc_eq numeral_eq_Suc)

lemma nat_of_digits_string_of_nat: "nat_of_digits 0 (string_of_nat n) = n"
proof (induction n rule: string_of_nat.induct)
  case (1 n)
  show ?case
  proof (cases "n < 10")
    case True
    then show ?thesis by (subst string_of_nat.simps) (simp add: of_char_digit)
  next
    case False
    then show ?thesis using 1
      by (subst string_of_nat.simps) (simp add: nat_of_digits_append of_char_digit)
  qed
qed

lemma string_of_nat_inj: "string_of_nat m = string_of_nat n \<longleftrightarrow> m = n"
  by (metis nat_of_digits_string_of_nat)

lemma apply_build_nodes:
  "fst (apply_build valid symbols relationships config)
     = buildNodes valid (retained config symbols)
         (fst (snd (fold (classify_step config) symbols ([], Map.empty, Map.empty))))
         (snd (snd (fold (classify_step config) symbols ([], Map.empty, Map.empty))))"
  using fold_classify_structural [of config symbols "[]" Map.empty Map.empty]
  by (auto simp: apply_build_def Let_def split: prod.splits)

lemma apply_build_ids:
  "map node_id (fst (apply_build valid symbols relationships config))
     = map (\<lambda>s. toNodeId (qualifiedName s)) (retained config symbols)"
  by (simp add: apply_build_nodes buildNodes_ids)

lemma apply_build_edges:
  "snd (apply_build valid symbols relationships config)
     = buildEdges (filteredRelationships config relationships)
         (fst (apply_build valid symbols relationships config))"
  by (simp add: apply_build_def Let_def split: prod.splits)

lemma edge_id_make_edge: "edge_id (make_edge i r) = ''edge_'' @ string_of_nat i"
  by (simp add: make_edge_def)

lemma edge_present_iff:
  assumes "i < length rels"
  shows "(\<exists>e \<in> set (buildEdges rels nodes). edge_id e = ''edge_'' @ string_of_nat i)
           \<longleftrightarrow> endpoints_ok (set (map node_id nodes)) (rels ! i)"
proof
  assume "\<exists>e \<in> set (buildEdges rels nodes). edge_id e = ''edge_'' @ string_of_nat i"
  then obtain j r where jr: "(j, r) \<in> set (enumerate 0 rels)"
      "endpoints_ok (set (map node_id nodes)) r"
      "edge_id (make_edge j r) = ''edge_'' @ string_of_nat i"
    by (auto simp: buildEdges_eq)
  from jr(3) have "j = i" by (simp add: edge_id_make_edge string_of_nat_inj)
  with jr(1) have "r = rels ! i" by (simp add: in_set_enumerate_eq)
  with jr(2) show "endpoints_ok (set (map node_id nodes)) (rels ! i)" by simp
next
  assume ok: "endpoints_ok (set (map node_id nodes)) (rels ! i)"
  from assms have "(i, rels ! i) \<in> set (enumerate 0 rels)" by (simp add: in_set_enumerate_eq)
  with ok have "make_edge i (rels ! i) \<in> set (buildEdges rels nodes)"
    by (force simp: buildEdges_eq)
  then show "\<exists>e \<in> set (buildEdges rels nodes). edge_id e = ''edge_'' @ string_of_nat i"
    using edge_id_make_edge by blast
qed

lemma edge_origin:
  assumes "e \<in> set (buildEdges rels nodes)"
  shows "\<exists>i < length rels. e = make_edge i (rels ! i) \<and> endpoints_ok (set (map node_id nodes)) (rels ! i)"
  using assms by (auto simp: buildEdges_eq in_set_enumerate_eq)

subsection \<open>Edges\<close>

text \<open>
  Claim C1. For every relationship that passes the edge-type filter, the built graph has
  the edge of that relationship (the one whose id carries the relationship's index in
  the filtered list) if and only if both its source and its target encode to ids of
  nodes; every edge of the graph is the edge of such a relationship; and the nodes are
  the retained structural symbols, in order. Nothing in the construction can fail: the
  model has no error value because the source has no throwing branch.
\<close>

theorem C1_edge_iff_both_endpoints_retained:
  "(\<forall>i < length (filteredRelationships config relationships).
      (\<exists>e \<in> set (snd (apply_build valid symbols relationships config)).
          edge_id e = ''edge_'' @ string_of_nat i)
      = (toNodeId (rel_source (filteredRelationships config relationships ! i))
           \<in> set (map node_id (fst (apply_build valid symbols relationships config)))
         \<and> toNodeId (rel_target (filteredRelationships config relationships ! i))
           \<in> set (map node_id (fst (apply_build valid symbols relationships config)))))
   \<and> (\<forall>e \<in> set (snd (apply_build valid symbols relationships config)).
        \<exists>i < length (filteredRelationships config relationships).
          e = make_edge i (filteredRelationships config relationships ! i))
   \<and> map node_id (fst (apply_build valid symbols relationships config))
        = map (\<lambda>s. toNodeId (qualifiedName s)) (retained config symbols)"
proof (intro conjI allI impI ballI)
  fix i assume "i < length (filteredRelationships config relationships)"
  then show "(\<exists>e \<in> set (snd (apply_build valid symbols relationships config)).
          edge_id e = ''edge_'' @ string_of_nat i)
      = (toNodeId (rel_source (filteredRelationships config relationships ! i))
           \<in> set (map node_id (fst (apply_build valid symbols relationships config)))
         \<and> toNodeId (rel_target (filteredRelationships config relationships ! i))
           \<in> set (map node_id (fst (apply_build valid symbols relationships config))))"
    unfolding apply_build_edges
    by (simp only: edge_present_iff endpoints_ok_def)
next
  fix e assume "e \<in> set (snd (apply_build valid symbols relationships config))"
  then show "\<exists>i < length (filteredRelationships config relationships).
          e = make_edge i (filteredRelationships config relationships ! i)"
    unfolding apply_build_edges
    using edge_origin by blast
next
  show "map node_id (fst (apply_build valid symbols relationships config))
        = map (\<lambda>s. toNodeId (qualifiedName s)) (retained config symbols)"
    by (rule apply_build_ids)
qed

subsection \<open>Sample inputs\<close>

text \<open>
  A symbol and a relationship with no optional field but the parent, and the view
  configuration with no filter.
\<close>

definition plain_symbol :: "string \<Rightarrow> string \<Rightarrow> string \<Rightarrow> string option \<Rightarrow> DiagramSymbol" where
  "plain_symbol n qn t p =
     \<lparr>name = n, qualifiedName = qn, nodeType = t, parent = p, features = None,
      typedBy = None, direction = None\<rparr>"

definition plain_relationship :: "string \<Rightarrow> string \<Rightarrow> string \<Rightarrow> DiagramRelationship" where
  "plain_relationship t s d =
     \<lparr>rel_type = t, rel_source = s, rel_target = d, rel_label = None, rel_multiplicity = None\<rparr>"

definition all_types_config :: ViewConfig where
  "all_types_config =
     \<lparr>view_type = ''GeneralView'', view_direction = None, includeNodeTypes = None,
      includeEdgeTypes = None, showNesting = None\<rparr>"

lemmas string_eval = starts_with_def string_of_nat.simps digit_char_def

lemmas filter_eval = shouldShowNodeType_def shouldShowEdgeType_def getNodeCategory_def
  all_types_config_def plain_symbol_def plain_relationship_def

definition demo_symbols :: "DiagramSymbol list" where
  "demo_symbols =
     [plain_symbol ''A'' ''A'' ''PartDef'' None,
      plain_symbol ''B'' ''A::B'' ''PartDef'' (Some ''A''),
      plain_symbol ''p'' ''A::p'' ''PortUsage'' (Some ''A'')]"

definition demo_relationships :: "DiagramRelationship list" where
  "demo_relationships =
     [plain_relationship ''composition'' ''A'' ''A::B'',
      plain_relationship ''connection'' ''A'' ''A::p'',
      plain_relationship ''typing'' ''A::B'' ''Missing'']"

theorem C1_witness:
  "(\<exists>e \<in> set (snd (apply_build [''PartDef''] demo_symbols demo_relationships all_types_config)).
      edge_id e = ''edge_0'')
   \<and> \<not> (\<exists>e \<in> set (snd (apply_build [''PartDef''] demo_symbols demo_relationships all_types_config)).
      edge_id e = ''edge_1'')
   \<and> \<not> (\<exists>e \<in> set (snd (apply_build [''PartDef''] demo_symbols demo_relationships all_types_config)).
      edge_id e = ''edge_2'')"
proof -
  have len: "length (filteredRelationships all_types_config demo_relationships) = 3"
    by (simp add: filteredRelationships_def demo_relationships_def filter_eval)
  have ids: "map node_id (fst (apply_build [''PartDef''] demo_symbols demo_relationships all_types_config))
      = [''A'', ''A_B'']"
    using C1_edge_iff_both_endpoints_retained
      [where config = all_types_config and relationships = demo_relationships
         and valid = "[''PartDef'']" and symbols = demo_symbols]
    by (simp add: retained_def demo_symbols_def filter_eval string_eval)
  have edge: "i < 3 \<Longrightarrow>
      (\<exists>e \<in> set (snd (apply_build [''PartDef''] demo_symbols demo_relationships all_types_config)).
          edge_id e = ''edge_'' @ string_of_nat i)
      = (toNodeId (rel_source (filteredRelationships all_types_config demo_relationships ! i))
           \<in> set [''A'', ''A_B'']
         \<and> toNodeId (rel_target (filteredRelationships all_types_config demo_relationships ! i))
           \<in> set [''A'', ''A_B''])" for i
    using C1_edge_iff_both_endpoints_retained
      [where config = all_types_config and relationships = demo_relationships
         and valid = "[''PartDef'']" and symbols = demo_symbols]
    unfolding len ids by blast
  have s0: "string_of_nat 0 = ''0''" and s1: "string_of_nat (Suc 0) = ''1''"
    and s2: "string_of_nat 2 = ''2''"
    by (simp_all add: string_eval)
  show ?thesis
    using edge [of 0] edge [of 1] edge [of 2]
    by (simp add: s0 s1 s2 filteredRelationships_def demo_relationships_def filter_eval)
qed

subsection \<open>Node ids\<close>

text \<open>Undoing the encoding, which is possible when the name has no underscore of its own.\<close>

fun fromNodeId :: "string \<Rightarrow> string" where
  "fromNodeId [] = []"
| "fromNodeId (c # cs) = (if c = CHR ''_'' then ''::'' @ fromNodeId cs else c # fromNodeId cs)"

lemma fromNodeId_toNodeId: "CHR ''_'' \<notin> set s \<Longrightarrow> fromNodeId (toNodeId s) = s"
  by (induction s rule: toNodeId.induct) auto

lemma toNodeId_inj_on: "inj_on toNodeId {s. CHR ''_'' \<notin> set s}"
  by (rule inj_on_inverseI [where g = fromNodeId]) (simp add: fromNodeId_toNodeId)

lemma distinct_retained:
  "distinct (map qualifiedName symbols) \<Longrightarrow> distinct (map qualifiedName (retained config symbols))"
  by (simp add: retained_def distinct_map_filter)

lemma node_data_qualifiedName:
  "n \<in> set (buildNodes valid symbols pm qm)
     \<Longrightarrow> \<exists>s \<in> set symbols. data_qualifiedName (node_data n) = Some (qualifiedName s)
            \<and> node_id n = toNodeId (qualifiedName s)"
  by (auto simp: buildNodes_def build_node_def Let_def)

text \<open>
  Claim C2, as stated: when all qualified names are distinct, no two nodes share an id.
  The encoding maps \<open>A::B\<close> and \<open>A_B\<close> to the same id, so two structural symbols with
  these distinct names give two nodes with the id \<open>A_B\<close>.
\<close>

theorem C2_collision_counterexample:
  "distinct (map qualifiedName [plain_symbol ''B'' ''A::B'' ''PartDef'' None,
                                  plain_symbol ''A_B'' ''A_B'' ''PartDef'' None])
   \<and> \<not> distinct (map node_id (fst (apply_build [''PartDef'']
          [plain_symbol ''B'' ''A::B'' ''PartDef'' None, plain_symbol ''A_B'' ''A_B'' ''PartDef'' None]
          [] all_types_config)))"
  by (simp add: apply_build_ids retained_def filter_eval string_eval)

text \<open>
  Claim C2, amended: in every case each node's id is the encoding of the qualified name
  the node carries (every \<open>::\<close> replaced by an underscore), so it depends on nothing
  else. When all qualified names are distinct, the ids of the nodes are pairwise
  distinct exactly when no two retained qualified names have the same encoding; this is
  so, in particular, when no retained qualified name contains an underscore.
\<close>

theorem C2_ids_encode_names:
  "(\<forall>n \<in> set (fst (apply_build valid symbols relationships config)).
        \<exists>qn. data_qualifiedName (node_data n) = Some qn \<and> node_id n = toNodeId qn)
   \<and> map node_id (fst (apply_build valid symbols relationships config))
        = map (\<lambda>s. toNodeId (qualifiedName s)) (retained config symbols)
   \<and> (distinct (map qualifiedName symbols) \<longrightarrow>
        (distinct (map node_id (fst (apply_build valid symbols relationships config)))
          \<longleftrightarrow> inj_on toNodeId (qualifiedName ` set (retained config symbols))))
   \<and> (distinct (map qualifiedName symbols)
        \<and> (\<forall>s \<in> set (retained config symbols). CHR ''_'' \<notin> set (qualifiedName s))
        \<longrightarrow> distinct (map node_id (fst (apply_build valid symbols relationships config))))"
proof -
  have ids: "map node_id (fst (apply_build valid symbols relationships config))
      = map toNodeId (map qualifiedName (retained config symbols))"
    by (simp add: apply_build_ids comp_def)
  have iff: "distinct (map node_id (fst (apply_build valid symbols relationships config)))
          \<longleftrightarrow> inj_on toNodeId (qualifiedName ` set (retained config symbols))"
    if "distinct (map qualifiedName symbols)"
  proof -
    from that have "distinct (map qualifiedName (retained config symbols))"
      by (rule distinct_retained)
    with distinct_map [of toNodeId "map qualifiedName (retained config symbols)"]
    have "distinct (map toNodeId (map qualifiedName (retained config symbols)))
        \<longleftrightarrow> inj_on toNodeId (set (map qualifiedName (retained config symbols)))"
      by blast
    then show ?thesis unfolding ids by (simp only: set_map)
  qed
  have inj: "inj_on toNodeId (qualifiedName ` set (retained config symbols))"
    if "\<forall>s \<in> set (retained config symbols). CHR ''_'' \<notin> set (qualifiedName s)"
    using that by (intro inj_on_subset [OF toNodeId_inj_on]) auto
  have carried: "\<exists>qn. data_qualifiedName (node_data n) = Some qn \<and> node_id n = toNodeId qn"
    if "n \<in> set (fst (apply_build valid symbols relationships config))" for n
    using that unfolding apply_build_nodes using node_data_qualifiedName by blast
  show ?thesis
  proof (intro conjI ballI impI)
    fix n assume "n \<in> set (fst (apply_build valid symbols relationships config))"
    then show "\<exists>qn. data_qualifiedName (node_data n) = Some qn \<and> node_id n = toNodeId qn"
      by (rule carried)
  next
    show "map node_id (fst (apply_build valid symbols relationships config))
        = map (\<lambda>s. toNodeId (qualifiedName s)) (retained config symbols)"
      by (rule apply_build_ids)
  next
    assume "distinct (map qualifiedName symbols)"
    then show "distinct (map node_id (fst (apply_build valid symbols relationships config)))
          \<longleftrightarrow> inj_on toNodeId (qualifiedName ` set (retained config symbols))"
      by (rule iff)
  next
    assume a: "distinct (map qualifiedName symbols)
        \<and> (\<forall>s \<in> set (retained config symbols). CHR ''_'' \<notin> set (qualifiedName s))"
    then show "distinct (map node_id (fst (apply_build valid symbols relationships config)))"
      using iff inj by blast
  qed
qed

definition nested_pair :: "DiagramSymbol list" where
  "nested_pair =
     [plain_symbol ''A'' ''A'' ''PartDef'' None,
      plain_symbol ''B'' ''A::B'' ''PartDef'' (Some ''A'')]"

definition underscore_pair :: "DiagramSymbol list" where
  "underscore_pair =
     [plain_symbol ''my_part'' ''my_part'' ''PartDef'' None,
      plain_symbol ''c'' ''Pkg::c'' ''PartDef'' None]"

theorem C2_witness:
  "distinct (map node_id (fst (apply_build [''PartDef''] nested_pair [] all_types_config)))
   \<and> map node_id (fst (apply_build [''PartDef''] nested_pair [] all_types_config))
       = [''A'', ''A_B'']
   \<and> distinct (map node_id (fst (apply_build [''PartDef''] underscore_pair [] all_types_config)))
   \<and> map node_id (fst (apply_build [''PartDef''] underscore_pair [] all_types_config))
       = [''my_part'', ''Pkg_c'']"
proof -
  note N = C2_ids_encode_names [of "[''PartDef'']" nested_pair "[]" all_types_config]
  note U = C2_ids_encode_names [of "[''PartDef'']" underscore_pair "[]" all_types_config]
  have rn: "retained all_types_config nested_pair = nested_pair"
    and ru: "retained all_types_config underscore_pair = underscore_pair"
    by (simp_all add: retained_def nested_pair_def underscore_pair_def filter_eval string_eval)
  have dn: "distinct (map qualifiedName nested_pair)"
    and du: "distinct (map qualifiedName underscore_pair)"
    by (simp_all add: nested_pair_def underscore_pair_def plain_symbol_def)
  have clean: "\<forall>s \<in> set (retained all_types_config nested_pair). CHR ''_'' \<notin> set (qualifiedName s)"
    unfolding rn by (simp add: nested_pair_def plain_symbol_def)
  have apart: "inj_on toNodeId (qualifiedName ` set (retained all_types_config underscore_pair))"
    unfolding ru by (simp add: underscore_pair_def plain_symbol_def)
  from N dn clean
  have "distinct (map node_id (fst (apply_build [''PartDef''] nested_pair [] all_types_config)))"
    by blast
  moreover from N have "map node_id (fst (apply_build [''PartDef''] nested_pair [] all_types_config))
      = map (\<lambda>s. toNodeId (qualifiedName s)) (retained all_types_config nested_pair)"
    by blast
  moreover from U du apart
  have "distinct (map node_id (fst (apply_build [''PartDef''] underscore_pair [] all_types_config)))"
    by blast
  moreover from U have "map node_id (fst (apply_build [''PartDef''] underscore_pair [] all_types_config))
      = map (\<lambda>s. toNodeId (qualifiedName s)) (retained all_types_config underscore_pair)"
    by blast
  ultimately show ?thesis
    by (simp add: rn ru) (simp add: nested_pair_def underscore_pair_def plain_symbol_def)
qed

subsection \<open>Merged content\<close>

text \<open>
  The lines a structural symbol \<open>P\<close> shows before empty lines are dropped: property
  lines, then a separator and the port lines when there is a port line, then the
  symbol's own features.
\<close>

definition merged_lines :: "ViewConfig \<Rightarrow> DiagramSymbol list \<Rightarrow> DiagramSymbol \<Rightarrow> string list" where
  "merged_lines config symbols P =
     child_lines config Property (qualifiedName P) symbols
     @ (if child_lines config Port (qualifiedName P) symbols \<noteq> []
        then ''---'' # child_lines config Port (qualifiedName P) symbols else [])
     @ (case features P of None \<Rightarrow> [] | Some fs \<Rightarrow> fs)"

text \<open>
  The content as claim C3 words it: every child line carries its type suffix whenever
  \<open>typedBy\<close> is present, and the list is kept exactly, empty lines included.
\<close>

definition claimed_line :: "DiagramSymbol \<Rightarrow> string" where
  "claimed_line s =
     (case direction s of None \<Rightarrow> [] | Some d \<Rightarrow> direction_str d @ '' '')
     @ name s
     @ (case typedBy s of None \<Rightarrow> [] | Some t \<Rightarrow> '' : '' @ last_segment t)"

definition claimed_children :: "ViewConfig \<Rightarrow> NodeCategory \<Rightarrow> DiagramSymbol list \<Rightarrow> DiagramSymbol \<Rightarrow> DiagramSymbol list" where
  "claimed_children config cat symbols P =
     filter (\<lambda>s. shouldShowNodeType (nodeType s) config
                  \<and> getNodeCategory (nodeType s) = cat
                  \<and> parent s = Some (qualifiedName P)) symbols"

definition claimed_content :: "ViewConfig \<Rightarrow> DiagramSymbol list \<Rightarrow> DiagramSymbol \<Rightarrow> string list" where
  "claimed_content config symbols P =
     map claimed_line (claimed_children config Property symbols P)
     @ (if claimed_children config Port symbols P \<noteq> []
        then ''---'' # map claimed_line (claimed_children config Port symbols P) else [])
     @ (case features P of None \<Rightarrow> [] | Some fs \<Rightarrow> fs)"

lemma get_or_empty_empty: "get_or_empty Map.empty k = []"
  by (simp add: get_or_empty_def)

lemma all_features_aggregated:
  "all_features (fst (snd (fold (classify_step config) symbols ([], Map.empty, Map.empty))))
                (snd (snd (fold (classify_step config) symbols ([], Map.empty, Map.empty)))) P
     = filter (\<lambda>l. l \<noteq> []) (merged_lines config symbols P)"
  by (simp add: all_features_def Let_def merged_lines_def fold_classify_properties
        fold_classify_ports get_or_empty_empty)

lemma build_node_features:
  "data_features (node_data (build_node valid ids hc pm qm s))
     = (if all_features pm qm s = [] then None else Some (all_features pm qm s))"
  by (simp add: build_node_def Let_def)

lemma buildNodes_nth:
  "i < length symbols \<Longrightarrow>
     \<exists>ids hc. buildNodes valid symbols pm qm ! i = build_node valid ids hc pm qm (symbols ! i)"
  by (auto simp: buildNodes_def Let_def)

lemma length_buildNodes: "length (buildNodes valid symbols pm qm) = length symbols"
  by (simp add: buildNodes_def Let_def)

lemma apply_build_length:
  "length (fst (apply_build valid symbols relationships config)) = length (retained config symbols)"
  by (simp add: apply_build_nodes length_buildNodes)

lemma apply_build_features:
  assumes "i < length (retained config symbols)"
  shows "data_features (node_data (fst (apply_build valid symbols relationships config) ! i))
     = (if filter (\<lambda>l. l \<noteq> []) (merged_lines config symbols (retained config symbols ! i)) = []
        then None
        else Some (filter (\<lambda>l. l \<noteq> []) (merged_lines config symbols (retained config symbols ! i))))"
proof -
  obtain ids hc where
    "fst (apply_build valid symbols relationships config) ! i
       = build_node valid ids hc
           (fst (snd (fold (classify_step config) symbols ([], Map.empty, Map.empty))))
           (snd (snd (fold (classify_step config) symbols ([], Map.empty, Map.empty))))
           (retained config symbols ! i)"
    unfolding apply_build_nodes using buildNodes_nth [OF assms] by blast
  then show ?thesis
    by (simp only: build_node_features all_features_aggregated)
qed

lemma format_line_eq:
  "format_line s =
     (case direction s of None \<Rightarrow> [] | Some d \<Rightarrow> direction_str d @ '' '')
     @ name s
     @ (case typedBy s of None \<Rightarrow> [] | Some t \<Rightarrow> if t = [] then [] else '' : '' @ last_segment t)"
  by (simp add: format_line_def Let_def truthy_def split: option.splits)

definition example_parent :: "DiagramSymbol list" where
  "example_parent =
     [plain_symbol ''P'' ''P'' ''PartDef'' None,
      (plain_symbol ''x'' ''P::x'' ''AttributeUsage'' (Some ''P''))\<lparr>typedBy := Some ''T''\<rparr>,
      (plain_symbol ''p'' ''P::p'' ''PortUsage'' (Some ''P''))\<lparr>direction := Some In\<rparr>]"

lemmas line_eval = child_lines_def merged_lines_def format_line_eq last_segment_def

text \<open>
  Claim C3, as stated: the merged content is exactly properties, separator and ports,
  then the symbol's own features. The source filters falsy lines out of the merged
  list, so a parent whose own features are \<open>a\<close> and the empty line shows only \<open>a\<close>.
\<close>

theorem C3_empty_line_counterexample:
  "data_features (node_data (fst (apply_build [''PartDef'']
        [(plain_symbol ''P'' ''P'' ''PartDef'' None)\<lparr>features := Some [''a'', '''']\<rparr>]
        [] all_types_config) ! 0))
     \<noteq> Some (claimed_content all_types_config
        [(plain_symbol ''P'' ''P'' ''PartDef'' None)\<lparr>features := Some [''a'', '''']\<rparr>]
        ((plain_symbol ''P'' ''P'' ''PartDef'' None)\<lparr>features := Some [''a'', '''']\<rparr>))"
  by (subst apply_build_features)
     (simp_all add: retained_def line_eval claimed_content_def claimed_children_def
        filter_eval string_eval)

text \<open>
  Claim C3, amended: the content of the node of every retained structural symbol is the
  list of the non-empty lines of: its property lines in input order, then (only if it
  has a port line) one separator line and its port lines in input order, then its own
  features; no content is stored when that list is empty. A child line is the direction
  and a space when a direction is present, then the name, then \<open> : \<close> and the last
  \<open>::\<close>-segment of \<open>typedBy\<close> when \<open>typedBy\<close> is present and not empty. For a parent
  \<open>P\<close> with a property \<open>x\<close> typed by \<open>T\<close> and a port \<open>p\<close> of direction \<open>in\<close> the content is
  \<open>x : T\<close>, \<open>---\<close>, \<open>in p\<close>.
\<close>

theorem C3_merged_content:
  "(\<forall>i < length (retained config symbols).
      data_features (node_data (fst (apply_build valid symbols relationships config) ! i))
        = (if filter (\<lambda>l. l \<noteq> []) (merged_lines config symbols (retained config symbols ! i)) = []
           then None
           else Some (filter (\<lambda>l. l \<noteq> [])
                        (merged_lines config symbols (retained config symbols ! i)))))
   \<and> length (fst (apply_build valid symbols relationships config))
        = length (retained config symbols)
   \<and> format_line s =
        (case direction s of None \<Rightarrow> [] | Some d \<Rightarrow> direction_str d @ '' '')
        @ name s
        @ (case typedBy s of None \<Rightarrow> []
           | Some t \<Rightarrow> if t = [] then [] else '' : '' @ last_segment t)
   \<and> data_features (node_data (fst (apply_build valid example_parent relationships all_types_config) ! 0))
        = Some [''x : T'', ''---'', ''in p'']"
proof (intro conjI allI impI)
  fix i assume "i < length (retained config symbols)"
  then show "data_features (node_data (fst (apply_build valid symbols relationships config) ! i))
        = (if filter (\<lambda>l. l \<noteq> []) (merged_lines config symbols (retained config symbols ! i)) = []
           then None
           else Some (filter (\<lambda>l. l \<noteq> [])
                        (merged_lines config symbols (retained config symbols ! i))))"
    by (rule apply_build_features)
next
  show "length (fst (apply_build valid symbols relationships config))
        = length (retained config symbols)"
    by (rule apply_build_length)
next
  show "format_line s =
        (case direction s of None \<Rightarrow> [] | Some d \<Rightarrow> direction_str d @ '' '')
        @ name s
        @ (case typedBy s of None \<Rightarrow> []
           | Some t \<Rightarrow> if t = [] then [] else '' : '' @ last_segment t)"
    by (rule format_line_eq)
next
  show "data_features (node_data (fst (apply_build valid example_parent relationships all_types_config) ! 0))
        = Some [''x : T'', ''---'', ''in p'']"
    by (subst apply_build_features)
       (simp_all add: retained_def line_eval example_parent_def filter_eval string_eval)
qed

definition busy_parent :: "DiagramSymbol list" where
  "busy_parent =
     [(plain_symbol ''Q'' ''Lib::Q'' ''PartDef'' None)\<lparr>features := Some [''extra'']\<rparr>,
      (plain_symbol ''a'' ''Lib::Q::a'' ''PortUsage'' (Some ''Lib::Q''))\<lparr>direction := Some Out\<rparr>,
      plain_symbol '''' ''Lib::Q::anon'' ''AttributeUsage'' (Some ''Lib::Q''),
      (plain_symbol ''b'' ''Lib::Q::b'' ''PortUsage'' (Some ''Lib::Q''))
        \<lparr>typedBy := Some ''Lib::Ports::Plug'', direction := Some InOut\<rparr>]"

theorem C3_witness:
  "0 < length (retained all_types_config busy_parent)
   \<and> data_features (node_data (fst (apply_build [''PartDef''] busy_parent [] all_types_config) ! 0))
        = Some [''---'', ''out a'', ''inout b : Plug'', ''extra'']"
proof -
  have len: "0 < length (retained all_types_config busy_parent)"
    by (simp add: retained_def busy_parent_def filter_eval string_eval)
  show ?thesis
    using len C3_merged_content [where config = all_types_config and symbols = busy_parent
        and valid = "[''PartDef'']" and relationships = "[]", THEN conjunct1, rule_format, OF len]
    by (simp add: retained_def line_eval busy_parent_def filter_eval string_eval)
qed

subsection \<open>Unregistered node types\<close>

lemma build_node_fields:
  "node_id (build_node valid ids hc pm qm s) = toNodeId (qualifiedName s)"
  "node_type (build_node valid ids hc pm qm s)
     = (if isValidNodeType valid (nodeType s) then nodeType s else ''default'')"
  "data_name (node_data (build_node valid ids hc pm qm s)) = name s"
  "data_qualifiedName (node_data (build_node valid ids hc pm qm s)) = Some (qualifiedName s)"
  by (simp_all add: build_node_def Let_def)

lemma buildNodes_member:
  "s \<in> set symbols \<Longrightarrow>
     \<exists>ids hc. build_node valid ids hc pm qm s \<in> set (buildNodes valid symbols pm qm)"
  by (auto simp: buildNodes_def Let_def)

text \<open>
  Claim C9. A symbol that passes the node-type filter and is classified structural, but
  whose type tag is not a registered node type, is kept: the built graph has a node for
  it, with its encoded id, its name and qualified name, tagged \<open>default\<close>; and the
  graph has one node for each retained symbol, whatever the tags are.
\<close>

theorem C9_unregistered_type_tagged_default:
  assumes "s \<in> set symbols"
    and "shouldShowNodeType (nodeType s) config"
    and "getNodeCategory (nodeType s) = Structural"
    and "\<not> isValidNodeType valid (nodeType s)"
  shows "(\<exists>n \<in> set (fst (apply_build valid symbols relationships config)).
            node_id n = toNodeId (qualifiedName s) \<and> node_type n = ''default''
            \<and> data_name (node_data n) = name s
            \<and> data_qualifiedName (node_data n) = Some (qualifiedName s))
         \<and> length (fst (apply_build valid symbols relationships config))
             = length (retained config symbols)"
proof
  from assms(1-3) have "s \<in> set (retained config symbols)"
    by (simp add: retained_def)
  then obtain ids hc where
    "build_node valid ids hc
       (fst (snd (fold (classify_step config) symbols ([], Map.empty, Map.empty))))
       (snd (snd (fold (classify_step config) symbols ([], Map.empty, Map.empty)))) s
     \<in> set (fst (apply_build valid symbols relationships config))"
    unfolding apply_build_nodes using buildNodes_member by blast
  then show "\<exists>n \<in> set (fst (apply_build valid symbols relationships config)).
            node_id n = toNodeId (qualifiedName s) \<and> node_type n = ''default''
            \<and> data_name (node_data n) = name s
            \<and> data_qualifiedName (node_data n) = Some (qualifiedName s)"
    using assms(4) by (intro bexI) (simp_all add: build_node_fields)
next
  show "length (fst (apply_build valid symbols relationships config))
             = length (retained config symbols)"
    by (rule apply_build_length)
qed

theorem C9_witness:
  "\<exists>n \<in> set (fst (apply_build [''PartDef'', ''PartUsage'']
        [plain_symbol ''A'' ''A'' ''PartDef'' None, plain_symbol ''W'' ''A::W'' ''Widget'' (Some ''A'')]
        [] all_types_config)).
     node_id n = ''A_W'' \<and> node_type n = ''default''"
proof -
  have "plain_symbol ''W'' ''A::W'' ''Widget'' (Some ''A'')
          \<in> set [plain_symbol ''A'' ''A'' ''PartDef'' None,
                  plain_symbol ''W'' ''A::W'' ''Widget'' (Some ''A'')]"
    by simp
  moreover have "shouldShowNodeType (nodeType (plain_symbol ''W'' ''A::W'' ''Widget'' (Some ''A'')))
      all_types_config"
    by (simp add: filter_eval)
  moreover have "getNodeCategory (nodeType (plain_symbol ''W'' ''A::W'' ''Widget'' (Some ''A'')))
      = Structural"
    by (simp add: filter_eval string_eval)
  moreover have "\<not> isValidNodeType [''PartDef'', ''PartUsage'']
      (nodeType (plain_symbol ''W'' ''A::W'' ''Widget'' (Some ''A'')))"
    by (simp add: isValidNodeType_def plain_symbol_def)
  ultimately show ?thesis
    using C9_unregistered_type_tagged_default
      [where s = "plain_symbol ''W'' ''A::W'' ''Widget'' (Some ''A'')"
         and symbols = "[plain_symbol ''A'' ''A'' ''PartDef'' None,
                         plain_symbol ''W'' ''A::W'' ''Widget'' (Some ''A'')]"
         and config = all_types_config
         and valid = "[''PartDef'', ''PartUsage'']" and relationships = "[]"]
    by (auto simp: plain_symbol_def)
qed

section \<open>Level and grid layout: properties\<close>

text \<open>
  Claim C10. \<open>applyLevelLayout\<close> and \<open>applyGridLayout\<close> return a list of the length of
  the input in which the node at every index is the input node at that index with
  only its position replaced: every other field, the unnamed ones included, is the
  input's.
\<close>

theorem C10_layouts_change_only_position:
  "length (applyLevelLayout nodes edges opts) = length nodes
   \<and> (\<forall>i < length nodes. \<exists>p. applyLevelLayout nodes edges opts ! i = (nodes ! i)\<lparr>dn_position := p\<rparr>)
   \<and> length (applyGridLayout nodes opts) = length nodes
   \<and> (\<forall>i < length nodes. \<exists>p. applyGridLayout nodes opts ! i = (nodes ! i)\<lparr>dn_position := p\<rparr>)"
  by (auto simp: applyLevelLayout_def applyGridLayout_def Let_def nth_enumerate_eq)

lemma grid_columns_bounds:
  assumes "0 < n"
  shows "(grid_columns n - 1)\<^sup>2 < n \<and> n \<le> (grid_columns n)\<^sup>2"
proof -
  define c where "c = grid_columns n"
  have pos: "0 < sqrt (real n)" using assms by simp
  then have cpos: "0 < \<lceil>sqrt (real n)\<rceil>" by linarith
  have c: "real c = of_int \<lceil>sqrt (real n)\<rceil>" using cpos by (simp add: c_def grid_columns_def)
  have up: "sqrt (real n) \<le> real c" unfolding c by linarith
  have lo: "real c - 1 < sqrt (real n)" unfolding c by linarith
  have "(sqrt (real n))\<^sup>2 \<le> (real c)\<^sup>2"
    using up pos by (intro power_mono) simp_all
  then have "real n \<le> real (c\<^sup>2)" by simp
  then have a: "n \<le> c\<^sup>2" by (simp only: of_nat_le_iff)
  have c1: "1 \<le> c" using cpos c by linarith
  then have "real (c - 1) = real c - 1" by (simp add: of_nat_diff)
  with lo have "real (c - 1) < sqrt (real n)" by simp
  then have "(real (c - 1))\<^sup>2 < (sqrt (real n))\<^sup>2"
    by (intro power_strict_mono) simp_all
  then have "real ((c - 1)\<^sup>2) < real n" by simp
  then have b: "(c - 1)\<^sup>2 < n" by (simp only: of_nat_less_iff)
  from a b show ?thesis by (simp add: c_def)
qed

lemma grid_columns_4: "grid_columns 4 = 2"
  by (simp add: grid_columns_def)

subsection \<open>Sample nodes and edges\<close>

definition sample_node :: "string \<Rightarrow> DiagramNode" where
  "sample_node ident =
     \<lparr>dn_id = ident, dn_type = Some ''PartUsage'', dn_position = \<lparr>pos_x = 0, pos_y = 0\<rparr>,
      dn_data = [(''name'', ident)]\<rparr>"

definition sample_edge :: "string \<Rightarrow> string \<Rightarrow> string \<Rightarrow> DiagramEdge" where
  "sample_edge ident s t =
     \<lparr>de_id = ident, de_source = s, de_target = t, de_type = None, de_label = None\<rparr>"

definition default_options :: LayoutOptions where
  "default_options =
     \<lparr>nodeWidth = None, nodeHeight = None, horizontalGap = None, verticalGap = None,
      layout_direction = None\<rparr>"

lemmas options_eval = opt_nodeWidth_def opt_nodeHeight_def opt_horizontalGap_def
  opt_verticalGap_def opt_direction_def default_options_def

lemma applyGridLayout_nth:
  "i < length nodes \<Longrightarrow>
     applyGridLayout nodes opts ! i
       = (nodes ! i)\<lparr>dn_position :=
           \<lparr>pos_x = real (i mod grid_columns (length nodes))
                      * (opt_nodeWidth opts + opt_horizontalGap opts),
            pos_y = real (i div grid_columns (length nodes))
                      * (opt_nodeHeight opts + opt_verticalGap opts)\<rparr>\<rparr>"
  by (simp add: applyGridLayout_def Let_def nth_enumerate_eq)

lemma length_applyGridLayout: "length (applyGridLayout nodes opts) = length nodes"
  by (simp add: applyGridLayout_def Let_def)

lemma grid_columns_ceiling:
  "real (grid_columns n) = of_int \<lceil>sqrt (real n)\<rceil>"
proof -
  have "0 \<le> sqrt (real n)" by simp
  then have "0 \<le> \<lceil>sqrt (real n)\<rceil>" by linarith
  then show ?thesis by (simp add: grid_columns_def)
qed

text \<open>
  Claim C7. For a non-empty node list of length \<open>n\<close>, \<open>applyGridLayout\<close> (which takes no
  edges) places node \<open>i\<close> of the input at column \<open>i mod c\<close> and row \<open>i div c\<close> of a grid
  with the cell spacing of the options, where \<open>c\<close> is the ceiling of the square root of
  \<open>n\<close>, that is, the least \<open>c\<close> with \<open>n \<le> c\<^sup>2\<close>. For 4 nodes \<open>c = 2\<close>, node 0 is at
  \<open>(0,0)\<close> and the row of node 2 differs from the row of node 0.
\<close>

theorem C7_grid_row_major:
  assumes "nodes \<noteq> []"
  shows "length (applyGridLayout nodes opts) = length nodes
    \<and> (\<forall>i < length nodes.
          applyGridLayout nodes opts ! i
            = (nodes ! i)\<lparr>dn_position :=
                \<lparr>pos_x = real (i mod grid_columns (length nodes))
                           * (opt_nodeWidth opts + opt_horizontalGap opts),
                 pos_y = real (i div grid_columns (length nodes))
                           * (opt_nodeHeight opts + opt_verticalGap opts)\<rparr>\<rparr>)
    \<and> real (grid_columns (length nodes)) = of_int \<lceil>sqrt (real (length nodes))\<rceil>
    \<and> (grid_columns (length nodes) - 1)\<^sup>2 < length nodes
    \<and> length nodes \<le> (grid_columns (length nodes))\<^sup>2
    \<and> (length nodes = 4 \<longrightarrow>
          grid_columns (length nodes) = 2
          \<and> dn_position (applyGridLayout nodes opts ! 0) = \<lparr>pos_x = 0, pos_y = 0\<rparr>
          \<and> 2 div grid_columns (length nodes) \<noteq> 0 div grid_columns (length nodes))"
proof -
  from assms have pos: "0 < length nodes" by simp
  have four: "length nodes = 4 \<Longrightarrow>
          grid_columns (length nodes) = 2
          \<and> dn_position (applyGridLayout nodes opts ! 0) = \<lparr>pos_x = 0, pos_y = 0\<rparr>
          \<and> 2 div grid_columns (length nodes) \<noteq> 0 div grid_columns (length nodes)"
    by (simp add: applyGridLayout_nth grid_columns_4)
  show ?thesis
    using grid_columns_bounds [OF pos] four
    by (simp add: length_applyGridLayout applyGridLayout_nth grid_columns_ceiling)
qed

definition four_nodes :: "DiagramNode list" where
  "four_nodes = [sample_node ''A'', sample_node ''B'', sample_node ''C'', sample_node ''D'']"

theorem C7_witness:
  "grid_columns (length four_nodes) = 2
   \<and> dn_position (applyGridLayout four_nodes default_options ! 0) = \<lparr>pos_x = 0, pos_y = 0\<rparr>
   \<and> dn_position (applyGridLayout four_nodes default_options ! 1) = \<lparr>pos_x = 240, pos_y = 0\<rparr>
   \<and> dn_position (applyGridLayout four_nodes default_options ! 2) = \<lparr>pos_x = 0, pos_y = 180\<rparr>"
proof -
  have ne: "four_nodes \<noteq> []" by (simp add: four_nodes_def)
  have len: "length four_nodes = 4" by (simp add: four_nodes_def)
  note T = C7_grid_row_major [OF ne, of default_options]
  from T len have c: "grid_columns (length four_nodes) = 2" by blast
  have nth: "i < length four_nodes \<Longrightarrow>
      applyGridLayout four_nodes default_options ! i
        = (four_nodes ! i)
            \<lparr>dn_position :=
                \<lparr>pos_x = real (i mod grid_columns (length four_nodes))
                     * (opt_nodeWidth default_options + opt_horizontalGap default_options),
                 pos_y = real (i div grid_columns (length four_nodes))
                     * (opt_nodeHeight default_options + opt_verticalGap default_options)\<rparr>\<rparr>" for i
    using T by blast
  have i0: "0 < length four_nodes" and i1: "1 < length four_nodes" and i2: "2 < length four_nodes"
    by (simp_all add: len)
  show ?thesis
    unfolding nth [OF i0] nth [OF i1] nth [OF i2] c
    by (simp add: options_eval)
qed

theorem C10_witness:
  "(\<exists>p. applyLevelLayout [sample_node ''A'', sample_node ''B''] [sample_edge ''e1'' ''A'' ''B'']
            default_options ! 1 = (sample_node ''B'')\<lparr>dn_position := p\<rparr>)
   \<and> (\<exists>p. applyGridLayout [sample_node ''A'', sample_node ''B''] default_options ! 1
            = (sample_node ''B'')\<lparr>dn_position := p\<rparr>)"
proof -
  have i: "1 < length [sample_node ''A'', sample_node ''B'']" by simp
  note T = C10_layouts_change_only_position
    [of "[sample_node ''A'', sample_node ''B'']" "[sample_edge ''e1'' ''A'' ''B'']" default_options]
  have a: "\<exists>p. applyLevelLayout [sample_node ''A'', sample_node ''B''] [sample_edge ''e1'' ''A'' ''B'']
            default_options ! 1 = ([sample_node ''A'', sample_node ''B''] ! 1)\<lparr>dn_position := p\<rparr>"
    using T i by blast
  have b: "\<exists>p. applyGridLayout [sample_node ''A'', sample_node ''B''] default_options ! 1
            = ([sample_node ''A'', sample_node ''B''] ! 1)\<lparr>dn_position := p\<rparr>"
    using T i by blast
  from a b show ?thesis by simp
qed

lemma length_applyLevelLayout: "length (applyLevelLayout nodes edges opts) = length nodes"
  by (simp add: applyLevelLayout_def Let_def)

lemma applyLevelLayout_nth:
  "i < length nodes \<Longrightarrow>
     applyLevelLayout nodes edges opts ! i
       = (nodes ! i)\<lparr>dn_position :=
           level_position opts (calculateLevels nodes edges None)
             (fold (group_step (calculateLevels nodes edges None)) (enumerate 0 nodes) Map.empty)
             (i, nodes ! i)\<rparr>"
  by (simp add: applyLevelLayout_def Let_def nth_enumerate_eq)

lemma level_position_TB_y:
  "opt_direction opts = TB \<Longrightarrow>
     pos_y (level_position opts levels byLevel (i, n))
       = real (level_of levels n) * (opt_nodeHeight opts + opt_verticalGap opts) + 50"
  by (simp add: level_position_def Let_def)

lemma level_position_swap:
  "level_position (opts\<lparr>layout_direction := Some LR\<rparr>) levels byLevel ixn
     = \<lparr>pos_x = pos_y (level_position (opts\<lparr>layout_direction := Some TB\<rparr>) levels byLevel ixn),
        pos_y = pos_x (level_position (opts\<lparr>layout_direction := Some TB\<rparr>) levels byLevel ixn)\<rparr>"
  by (simp add: level_position_def Let_def opt_direction_def opt_nodeWidth_def opt_nodeHeight_def
        opt_horizontalGap_def opt_verticalGap_def split: prod.splits)

definition swap_axes :: "'a DiagramNode_scheme \<Rightarrow> 'a DiagramNode_scheme" where
  "swap_axes n = n\<lparr>dn_position := \<lparr>pos_x = pos_y (dn_position n), pos_y = pos_x (dn_position n)\<rparr>\<rparr>"

lemma applyLevelLayout_swap:
  "applyLevelLayout nodes edges (opts\<lparr>layout_direction := Some LR\<rparr>)
     = map swap_axes (applyLevelLayout nodes edges (opts\<lparr>layout_direction := Some TB\<rparr>))"
  by (simp add: applyLevelLayout_def Let_def swap_axes_def level_position_swap)

definition chain_nodes :: "DiagramNode list" where
  "chain_nodes = [sample_node ''A'', sample_node ''B'', sample_node ''C'']"

definition chain_edges :: "DiagramEdge list" where
  "chain_edges = [sample_edge ''e1'' ''A'' ''B'', sample_edge ''e2'' ''B'' ''C'']"

lemmas levels_eval = calculateLevels_def traverse_def start_ids_def buildGraph_def neighbors_def
  visit_pair max_level_def level_of_def sample_node_def sample_edge_def

lemma chain_levels:
  "calculateLevels chain_nodes chain_edges None = [(''A'', 0), (''B'', 1), (''C'', 2)]"
  by (simp add: chain_nodes_def chain_edges_def levels_eval Let_def)


lemma level_axis_increasing:
  assumes "nodeHeight opts = None" "verticalGap opts = None" "opt_direction opts = TB"
    and "i < length nodes" "j < length nodes"
    and "level_of (calculateLevels nodes edges None) (nodes ! i)
           < level_of (calculateLevels nodes edges None) (nodes ! j)"
  shows "pos_y (dn_position (applyLevelLayout nodes edges opts ! i))
           < pos_y (dn_position (applyLevelLayout nodes edges opts ! j))"
  using assms
  by (simp add: applyLevelLayout_nth level_position_TB_y opt_nodeHeight_def opt_verticalGap_def)

lemma chain_layout_y:
  "map (\<lambda>n. pos_y (dn_position n)) (applyLevelLayout chain_nodes chain_edges default_options)
     = [50, 230, 410]"
proof -
  have d: "opt_direction default_options = TB" by (simp add: options_eval)
  have l: "length chain_nodes = 3" by (simp add: chain_nodes_def)
  have y: "i < 3 \<Longrightarrow>
      pos_y (dn_position (applyLevelLayout chain_nodes chain_edges default_options ! i))
        = real (level_of [(''A'', 0), (''B'', 1), (''C'', 2)] (chain_nodes ! i)) * 180 + 50" for i
    by (simp add: applyLevelLayout_nth l level_position_TB_y [OF d] chain_levels
          opt_nodeHeight_def opt_verticalGap_def)
       (simp add: default_options_def)
  have y0: "pos_y (dn_position (applyLevelLayout chain_nodes chain_edges default_options ! 0)) = 50"
    using y [of 0] by (simp add: level_of_def chain_nodes_def sample_node_def)
  have y1: "pos_y (dn_position (applyLevelLayout chain_nodes chain_edges default_options ! Suc 0)) = 230"
    using y [of 1] by (simp add: level_of_def chain_nodes_def sample_node_def)
  have y2: "pos_y (dn_position (applyLevelLayout chain_nodes chain_edges default_options ! Suc (Suc 0)))
      = 410"
    using y [of 2] by (simp add: level_of_def chain_nodes_def sample_node_def numeral_2_eq_2)
  show ?thesis
    by (rule nth_equalityI)
       (auto simp: length_applyLevelLayout l y0 y1 y2 less_Suc_eq numeral_3_eq_3)
qed

text \<open>
  Claim C6. With the default node height and vertical gap and direction \<open>TB\<close>, a node
  of a lower level gets a strictly smaller \<open>y\<close> than a node of a higher level; the chain
  \<open>A \<rightarrow> B \<rightarrow> C\<close> has the levels 0, 1, 2 and the \<open>y\<close> coordinates 50, 230, 410; and for all
  options the layout with direction \<open>LR\<close> is the layout with direction \<open>TB\<close> with the
  two coordinates of every node exchanged.
\<close>

theorem C6_level_axis_and_direction_swap:
  "(nodeHeight opts = None \<and> verticalGap opts = None \<and> opt_direction opts = TB \<longrightarrow>
      (\<forall>i < length nodes. \<forall>j < length nodes.
          level_of (calculateLevels nodes edges None) (nodes ! i)
            < level_of (calculateLevels nodes edges None) (nodes ! j)
          \<longrightarrow> pos_y (dn_position (applyLevelLayout nodes edges opts ! i))
                < pos_y (dn_position (applyLevelLayout nodes edges opts ! j))))
   \<and> calculateLevels chain_nodes chain_edges None = [(''A'', 0), (''B'', 1), (''C'', 2)]
   \<and> map (\<lambda>n. pos_y (dn_position n)) (applyLevelLayout chain_nodes chain_edges default_options)
        = [50, 230, 410]
   \<and> applyLevelLayout nodes edges (opts\<lparr>layout_direction := Some LR\<rparr>)
        = map swap_axes (applyLevelLayout nodes edges (opts\<lparr>layout_direction := Some TB\<rparr>))"
  using level_axis_increasing [of opts _ nodes _ edges]
  by (simp add: chain_levels chain_layout_y applyLevelLayout_swap)

theorem C6_witness:
  "pos_y (dn_position (applyLevelLayout [sample_node ''A'', sample_node ''B'']
            [sample_edge ''e1'' ''A'' ''B''] default_options ! 0))
     < pos_y (dn_position (applyLevelLayout [sample_node ''A'', sample_node ''B'']
            [sample_edge ''e1'' ''A'' ''B''] default_options ! 1))"
proof -
  have o: "nodeHeight default_options = None \<and> verticalGap default_options = None
      \<and> opt_direction default_options = TB"
    by (simp add: options_eval)
  have i: "0 < length [sample_node ''A'', sample_node ''B'']"
    and j: "1 < length [sample_node ''A'', sample_node ''B'']"
    by simp_all
  have lv: "level_of (calculateLevels [sample_node ''A'', sample_node ''B'']
                [sample_edge ''e1'' ''A'' ''B''] None) ([sample_node ''A'', sample_node ''B''] ! 0)
      < level_of (calculateLevels [sample_node ''A'', sample_node ''B'']
                [sample_edge ''e1'' ''A'' ''B''] None) ([sample_node ''A'', sample_node ''B''] ! 1)"
    by (simp add: levels_eval Let_def)
  from C6_level_axis_and_direction_swap
    [of default_options "[sample_node ''A'', sample_node ''B'']" "[sample_edge ''e1'' ''A'' ''B'']"]
    o i j lv
  show ?thesis by blast
qed

subsection \<open>Levels are shortest distances\<close>

text \<open>
  The ids that a path of exactly \<open>n\<close> edges reaches from a root in \<open>S\<close>, and the shortest
  distance of an id: the least such \<open>n\<close>.
\<close>

primrec hops :: "DiagramEdge list \<Rightarrow> string set \<Rightarrow> nat \<Rightarrow> string set" where
  "hops edges S 0 = S"
| "hops edges S (Suc n) = {de_target e | e. e \<in> set edges \<and> de_source e \<in> hops edges S n}"

definition shortest :: "DiagramEdge list \<Rightarrow> string set \<Rightarrow> string \<Rightarrow> nat \<Rightarrow> bool" where
  "shortest edges S v d = (v \<in> hops edges S d \<and> (\<forall>m < d. v \<notin> hops edges S m))"

lemma map_of_update: "map_of (AList.update k v al) = (map_of al)(k \<mapsto> v)"
  by (rule update_conv')

lemma neighbors_update:
  "neighbors (AList.update k v g) u = (if u = k then v else neighbors g u)"
  by (simp add: neighbors_def map_of_update)

lemma neighbors_fold:
  "neighbors (fold (\<lambda>e graph. AList.update (de_source e) (neighbors graph (de_source e) @ [de_target e]) graph)
        edges g) u
     = neighbors g u @ map de_target (filter (\<lambda>e. de_source e = u) edges)"
  by (induction edges arbitrary: g) (simp_all add: neighbors_update)

lemma neighbors_buildGraph:
  "neighbors (buildGraph edges) u = map de_target (filter (\<lambda>e. de_source e = u) edges)"
  by (simp add: buildGraph_def neighbors_fold) (simp add: neighbors_def)

lemma hops_Suc_neighbors:
  "w \<in> hops edges S (Suc n) \<longleftrightarrow> (\<exists>u \<in> hops edges S n. w \<in> set (neighbors (buildGraph edges) u))"
  by (auto simp: neighbors_buildGraph)

lemma shortest_unique: "shortest edges S v d \<Longrightarrow> shortest edges S v d' \<Longrightarrow> d = d'"
  by (metis shortest_def linorder_neqE_nat)

lemma shortest_le: "shortest edges S v l \<Longrightarrow> v \<in> hops edges S d \<Longrightarrow> l \<le> d"
  by (meson shortest_def not_le)

lemma hops_shortest: "v \<in> hops edges S d \<Longrightarrow> \<exists>l. shortest edges S v l"
proof (induction d rule: less_induct)
  case (less d)
  show ?case
  proof (cases "\<forall>m < d. v \<notin> hops edges S m")
    case True
    with less.prems show ?thesis by (auto simp: shortest_def)
  next
    case False
    then obtain m where "m < d" "v \<in> hops edges S m" by blast
    then show ?thesis by (rule less.IH)
  qed
qed

lemma visit_fold_levels:
  "map_of (snd (fold (visit k) ns (q, L))) w
     = (case map_of L w of Some l \<Rightarrow> Some l
        | None \<Rightarrow> if w \<in> set ns then Some (Suc k) else None)"
proof (induction ns arbitrary: q L)
  case Nil
  then show ?case by (simp split: option.splits)
next
  case (Cons n ns)
  show ?case
  proof (cases "map_of L n = None")
    case True
    have "map_of (snd (fold (visit k) (n # ns) (q, L))) w
        = map_of (snd (fold (visit k) ns (q @ [(n, Suc k)], AList.update n (Suc k) L))) w"
      using True by (simp add: visit_pair)
    also have "\<dots> = (case map_of (AList.update n (Suc k) L) w of Some l \<Rightarrow> Some l
        | None \<Rightarrow> if w \<in> set ns then Some (Suc k) else None)"
      by (rule Cons.IH)
    also have "\<dots> = (case map_of L w of Some l \<Rightarrow> Some l
        | None \<Rightarrow> if w \<in> set (n # ns) then Some (Suc k) else None)"
      using True by (auto simp: map_of_update split: option.splits)
    finally show ?thesis .
  next
    case False
    have "map_of (snd (fold (visit k) (n # ns) (q, L))) w
        = map_of (snd (fold (visit k) ns (q, L))) w"
      using False by (auto simp: visit_pair)
    also have "\<dots> = (case map_of L w of Some l \<Rightarrow> Some l
        | None \<Rightarrow> if w \<in> set ns then Some (Suc k) else None)"
      by (rule Cons.IH)
    also have "\<dots> = (case map_of L w of Some l \<Rightarrow> Some l
        | None \<Rightarrow> if w \<in> set (n # ns) then Some (Suc k) else None)"
      using False by (auto split: option.splits)
    finally show ?thesis .
  qed
qed

lemma visit_fold_queue:
  "\<exists>new. fst (fold (visit k) ns (q, L)) = q @ new
         \<and> set new = (\<lambda>w. (w, Suc k)) ` {w \<in> set ns. map_of L w = None}"
proof (induction ns arbitrary: q L)
  case Nil
  then show ?case by simp
next
  case (Cons n ns)
  show ?case
  proof (cases "map_of L n = None")
    case True
    obtain new where new: "fst (fold (visit k) ns (q @ [(n, Suc k)], AList.update n (Suc k) L))
          = (q @ [(n, Suc k)]) @ new"
        "set new = (\<lambda>w. (w, Suc k)) ` {w \<in> set ns. map_of (AList.update n (Suc k) L) w = None}"
      using Cons.IH by blast
    have "set ((n, Suc k) # new) = (\<lambda>w. (w, Suc k)) ` {w \<in> set (n # ns). map_of L w = None}"
      using True new(2) by (auto simp: map_of_update)
    moreover have "fst (fold (visit k) (n # ns) (q, L)) = q @ ((n, Suc k) # new)"
      using True new(1) by (simp add: visit_pair)
    ultimately show ?thesis by blast
  next
    case False
    obtain new where new: "fst (fold (visit k) ns (q, L)) = q @ new"
        "set new = (\<lambda>w. (w, Suc k)) ` {w \<in> set ns. map_of L w = None}"
      using Cons.IH by blast
    have "set new = (\<lambda>w. (w, Suc k)) ` {w \<in> set (n # ns). map_of L w = None}"
      using False new(2) by auto
    moreover have "fst (fold (visit k) (n # ns) (q, L)) = q @ new"
      using False new(1) by (auto simp: visit_pair)
    ultimately show ?thesis by blast
  qed
qed

text \<open>
  The invariant of the traversal loop: every queued id has its queued level; every
  assigned level is the shortest distance; the queue is ordered by level and spans at
  most two consecutive levels; an assigned id is still queued or all its neighbours are
  assigned; and the roots are assigned.
\<close>

definition bfs_inv :: "DiagramEdge list \<Rightarrow> string set \<Rightarrow> (string \<times> nat) list \<Rightarrow> level_map \<Rightarrow> bool" where
  "bfs_inv edges S q L =
     ((\<forall>v l. (v, l) \<in> set q \<longrightarrow> map_of L v = Some l)
      \<and> (\<forall>v l. map_of L v = Some l \<longrightarrow> shortest edges S v l)
      \<and> sorted (map snd q)
      \<and> (\<forall>l \<in> snd ` set q. \<forall>l' \<in> snd ` set q. l' \<le> Suc l)
      \<and> (\<forall>v l. map_of L v = Some l \<longrightarrow>
            (v, l) \<in> set q \<or> set (neighbors (buildGraph edges) v) \<subseteq> dom (map_of L))
      \<and> S \<subseteq> dom (map_of L))"

lemma sorted_constant: "\<forall>x \<in> set xs. x = (c::nat) \<Longrightarrow> sorted xs"
  by (induction xs) auto

lemma bfs_inv_below_head:
  assumes inv: "bfs_inv edges S ((v, k) # rest) L" and "d \<le> k"
  shows "hops edges S d \<subseteq> dom (map_of L)"
  using \<open>d \<le> k\<close>
proof (induction d)
  case 0
  from inv show ?case by (simp add: bfs_inv_def)
next
  case (Suc d)
  then have IH: "hops edges S d \<subseteq> dom (map_of L)" by simp
  show ?case
  proof
    fix w assume "w \<in> hops edges S (Suc d)"
    then obtain u where u: "u \<in> hops edges S d" "w \<in> set (neighbors (buildGraph edges) u)"
      unfolding hops_Suc_neighbors by blast
    from IH u(1) obtain l where l: "map_of L u = Some l" by blast
    with inv have "shortest edges S u l" by (simp add: bfs_inv_def)
    with u(1) have "l \<le> d" using shortest_le by blast
    with Suc.prems have lk: "l < k" by simp
    have "(u, l) \<notin> set ((v, k) # rest)"
    proof
      assume m: "(u, l) \<in> set ((v, k) # rest)"
      from inv have "sorted (map snd ((v, k) # rest))" by (simp add: bfs_inv_def)
      then have "\<forall>x \<in> set rest. k \<le> snd x" by simp
      with m lk show False by auto
    qed
    with inv l have "set (neighbors (buildGraph edges) u) \<subseteq> dom (map_of L)"
      unfolding bfs_inv_def by blast
    with u(2) show "w \<in> dom (map_of L)" by blast
  qed
qed

lemma bfs_inv_step:
  assumes inv: "bfs_inv edges S ((v, k) # rest) L"
    and f: "fold (visit k) (neighbors (buildGraph edges) v) (rest, L) = (q', L')"
  shows "bfs_inv edges S q' L'"
proof -
  let ?ns = "neighbors (buildGraph edges) v"
  have L': "map_of L' w = (case map_of L w of Some l \<Rightarrow> Some l
        | None \<Rightarrow> if w \<in> set ?ns then Some (Suc k) else None)" for w
    using visit_fold_levels [of k ?ns rest L w] f by simp
  obtain new where q': "q' = rest @ new"
      and new: "set new = (\<lambda>w. (w, Suc k)) ` {w \<in> set ?ns. map_of L w = None}"
    using visit_fold_queue [of k ?ns rest L] f by auto
  from inv have I1: "\<And>u l. (u, l) \<in> set ((v, k) # rest) \<Longrightarrow> map_of L u = Some l"
    and I2: "\<And>u l. map_of L u = Some l \<Longrightarrow> shortest edges S u l"
    and I3: "sorted (map snd ((v, k) # rest))"
    and I3b: "\<And>l l'. l \<in> snd ` set ((v, k) # rest) \<Longrightarrow> l' \<in> snd ` set ((v, k) # rest) \<Longrightarrow> l' \<le> Suc l"
    and I4: "\<And>u l. map_of L u = Some l \<Longrightarrow>
            (u, l) \<in> set ((v, k) # rest) \<or> set (neighbors (buildGraph edges) u) \<subseteq> dom (map_of L)"
    and I5: "S \<subseteq> dom (map_of L)"
    unfolding bfs_inv_def by blast+
  have mono: "map_of L u = Some l \<Longrightarrow> map_of L' u = Some l" for u l
    by (simp add: L')
  have dom_mono: "dom (map_of L) \<subseteq> dom (map_of L')"
    using mono by blast
  have vk: "shortest edges S v k" using I1 [of v k] I2 by simp
  have rest_ge: "\<And>l. l \<in> snd ` set rest \<Longrightarrow> k \<le> l" using I3 by auto
  have rest_le: "\<And>l. l \<in> snd ` set rest \<Longrightarrow> l \<le> Suc k" using I3b [of k] by simp
  have fresh: "shortest edges S w (Suc k)" if "w \<in> set ?ns" "map_of L w = None" for w
  proof -
    from vk have "v \<in> hops edges S k" by (simp add: shortest_def)
    with that(1) have "w \<in> hops edges S (Suc k)" unfolding hops_Suc_neighbors by blast
    moreover have "w \<notin> hops edges S m" if "m < Suc k" for m
    proof -
      from that have "m \<le> k" by simp
      from bfs_inv_below_head [OF inv this] \<open>map_of L w = None\<close> show ?thesis by blast
    qed
    ultimately show ?thesis by (simp add: shortest_def)
  qed
  have J1: "\<forall>u l. (u, l) \<in> set q' \<longrightarrow> map_of L' u = Some l"
  proof (intro allI impI)
    fix u l assume "(u, l) \<in> set q'"
    then consider "(u, l) \<in> set rest" | "(u, l) \<in> set new" by (auto simp: q')
    then show "map_of L' u = Some l"
    proof cases
      case 1
      then show ?thesis using I1 mono by simp
    next
      case 2
      then show ?thesis by (auto simp: new L')
    qed
  qed
  have J2: "\<forall>u l. map_of L' u = Some l \<longrightarrow> shortest edges S u l"
  proof (intro allI impI)
    fix u l assume a: "map_of L' u = Some l"
    show "shortest edges S u l"
    proof (cases "map_of L u")
      case None
      with a have "u \<in> set ?ns" "l = Suc k" by (auto simp: L' split: if_splits)
      with None fresh show ?thesis by simp
    next
      case (Some l0)
      with a have "l0 = l" by (simp add: L')
      with Some I2 show ?thesis by simp
    qed
  qed
  have snd_new: "snd ` set new \<subseteq> {Suc k}" by (auto simp: new)
  have "sorted (map snd new)"
    using snd_new by (intro sorted_constant [where c = "Suc k"]) auto
  moreover have "\<forall>x \<in> set rest. \<forall>y \<in> set new. snd x \<le> snd y"
  proof (intro ballI)
    fix x y assume "x \<in> set rest" "y \<in> set new"
    then have "snd x \<le> Suc k" "snd y = Suc k" using rest_le snd_new by auto
    then show "snd x \<le> snd y" by simp
  qed
  ultimately have J3: "sorted (map snd q')"
    using I3 by (auto simp: q' sorted_append)
  have J3b: "\<forall>l \<in> snd ` set q'. \<forall>l' \<in> snd ` set q'. l' \<le> Suc l"
  proof (intro ballI)
    fix l l' assume "l \<in> snd ` set q'" "l' \<in> snd ` set q'"
    then have "k \<le> l" "l' \<le> Suc k"
      using rest_ge rest_le snd_new by (auto simp: q' image_Un)
    then show "l' \<le> Suc l" by simp
  qed
  have J4: "\<forall>u l. map_of L' u = Some l \<longrightarrow>
            (u, l) \<in> set q' \<or> set (neighbors (buildGraph edges) u) \<subseteq> dom (map_of L')"
  proof (intro allI impI)
    fix u l assume a: "map_of L' u = Some l"
    show "(u, l) \<in> set q' \<or> set (neighbors (buildGraph edges) u) \<subseteq> dom (map_of L')"
    proof (cases "map_of L u")
      case None
      with a have "u \<in> set ?ns" "l = Suc k" by (auto simp: L' split: if_splits)
      with None have "(u, l) \<in> set new" by (auto simp: new)
      then show ?thesis by (simp add: q')
    next
      case (Some l0)
      with a have l0: "l0 = l" by (simp add: L')
      from I4 [OF Some] consider "(u, l0) = (v, k)" | "(u, l0) \<in> set rest"
        | "set (neighbors (buildGraph edges) u) \<subseteq> dom (map_of L)" by auto
      then show ?thesis
      proof cases
        case 1
        have "set ?ns \<subseteq> dom (map_of L')"
          by (auto simp: L' split: option.splits)
        with 1 show ?thesis by simp
      next
        case 2
        then show ?thesis by (simp add: q' l0)
      next
        case 3
        with dom_mono show ?thesis by blast
      qed
    qed
  qed
  have J5: "S \<subseteq> dom (map_of L')" using I5 dom_mono by blast
  from J1 J2 J3 J3b J4 J5 show ?thesis unfolding bfs_inv_def by blast
qed

lemma bfs_inv_bfs:
  "bfs_inv edges S q L \<Longrightarrow> bfs_inv edges S [] (bfs (buildGraph edges) q L)"
proof (induction "buildGraph edges" q L rule: bfs.induct)
  case (1 levels)
  then show ?case by simp
next
  case (2 ident level rest levels)
  obtain q' L' where f: "fold (visit level) (neighbors (buildGraph edges) ident) (rest, levels) = (q', L')"
    by (cases "fold (visit level) (neighbors (buildGraph edges) ident) (rest, levels)")
  from bfs_inv_step [OF "2.prems" f] have "bfs_inv edges S q' L'" .
  from "2.hyps" [OF f [symmetric] this] f show ?case by simp
qed

lemma map_of_initial_levels:
  "map_of (fold (\<lambda>ident levels. AList.update ident 0 levels) starts L) v
     = (if v \<in> set starts then Some 0 else map_of L v)"
  by (induction starts arbitrary: L) (auto simp: map_of_update)

lemma bfs_inv_initial:
  "bfs_inv edges (set starts) (map (\<lambda>ident. (ident, 0)) starts)
     (fold (\<lambda>ident levels. AList.update ident 0 levels) starts [])"
proof -
  have s: "sorted (map snd (map (\<lambda>ident. (ident, 0::nat)) starts))"
    by (intro sorted_constant [where c = 0]) auto
  show ?thesis
    unfolding bfs_inv_def
    using s by (auto simp: map_of_initial_levels shortest_def split: if_splits)
qed

lemma bfs_inv_traverse:
  "bfs_inv edges (set (start_ids nodes edges starts)) [] (traverse nodes edges starts)"
  unfolding traverse_def Let_def by (intro bfs_inv_bfs bfs_inv_initial)

lemma bfs_inv_final_closed:
  assumes "bfs_inv edges S [] L"
  shows "hops edges S d \<subseteq> dom (map_of L)"
proof (induction d)
  case 0
  from assms show ?case by (simp add: bfs_inv_def)
next
  case (Suc d)
  show ?case
  proof
    fix w assume "w \<in> hops edges S (Suc d)"
    then obtain u where u: "u \<in> hops edges S d" "w \<in> set (neighbors (buildGraph edges) u)"
      unfolding hops_Suc_neighbors by blast
    from Suc u(1) obtain l where "map_of L u = Some l" by blast
    with assms have "set (neighbors (buildGraph edges) u) \<subseteq> dom (map_of L)"
      unfolding bfs_inv_def by auto
    with u(2) show "w \<in> dom (map_of L)" by blast
  qed
qed

lemma traverse_shortest:
  "map_of (traverse nodes edges starts) v = Some d
     \<longleftrightarrow> shortest edges (set (start_ids nodes edges starts)) v d"
proof
  assume "map_of (traverse nodes edges starts) v = Some d"
  with bfs_inv_traverse [of edges nodes starts]
  show "shortest edges (set (start_ids nodes edges starts)) v d"
    unfolding bfs_inv_def by blast
next
  assume sh: "shortest edges (set (start_ids nodes edges starts)) v d"
  then have "v \<in> hops edges (set (start_ids nodes edges starts)) d" by (simp add: shortest_def)
  with bfs_inv_final_closed [OF bfs_inv_traverse, of edges nodes starts d]
  obtain l where l: "map_of (traverse nodes edges starts) v = Some l" by blast
  with bfs_inv_traverse [of edges nodes starts]
  have "shortest edges (set (start_ids nodes edges starts)) v l"
    unfolding bfs_inv_def by blast
  with sh have "l = d" using shortest_unique by blast
  with l show "map_of (traverse nodes edges starts) v = Some d" by simp
qed

lemma traverse_unreached:
  "map_of (traverse nodes edges starts) v = None
     \<longleftrightarrow> (\<forall>d. v \<notin> hops edges (set (start_ids nodes edges starts)) d)"
proof
  assume n: "map_of (traverse nodes edges starts) v = None"
  show "\<forall>d. v \<notin> hops edges (set (start_ids nodes edges starts)) d"
  proof
    fix d
    from bfs_inv_final_closed [OF bfs_inv_traverse, of edges nodes starts d] n
    show "v \<notin> hops edges (set (start_ids nodes edges starts)) d" by blast
  qed
next
  assume u: "\<forall>d. v \<notin> hops edges (set (start_ids nodes edges starts)) d"
  show "map_of (traverse nodes edges starts) v = None"
  proof (cases "map_of (traverse nodes edges starts) v")
    case None
    then show ?thesis .
  next
    case (Some d)
    then have "shortest edges (set (start_ids nodes edges starts)) v d"
      by (simp add: traverse_shortest)
    with u show ?thesis by (simp add: shortest_def)
  qed
qed

lemma map_of_fill:
  "map_of (fold (\<lambda>n levels. if map_of levels (dn_id n) = None
                            then AList.update (dn_id n) m levels else levels) nodes L) v
     = (case map_of L v of Some l \<Rightarrow> Some l
        | None \<Rightarrow> if v \<in> dn_id ` set nodes then Some m else None)"
proof (induction nodes arbitrary: L)
  case Nil
  then show ?case by (simp split: option.splits)
next
  case (Cons n nodes)
  show ?case
  proof (cases "map_of L (dn_id n) = None")
    case True
    then show ?thesis
      by (simp add: Cons.IH) (auto simp: map_of_update split: option.splits)
  next
    case False
    then show ?thesis
      by (simp add: Cons.IH) (auto split: option.splits)
  qed
qed

lemma calculateLevels_lookup:
  "map_of (calculateLevels nodes edges starts) v
     = (case map_of (traverse nodes edges starts) v of
          Some l \<Rightarrow> Some l
        | None \<Rightarrow> if v \<in> dn_id ` set nodes
                  then Some (max_level (traverse nodes edges starts)) else None)"
  by (simp add: calculateLevels_def Let_def map_of_fill)

lemma max_level_Max: "max_level levels = Max (insert 0 (snd ` set levels))"
proof -
  have "fold max (map snd levels) 0 = Max (set (0 # map snd levels))"
    by (rule Max.set_eq_fold [symmetric])
  then show ?thesis by (simp add: max_level_def)
qed

lemma root_start:
  "n \<in> set nodes \<Longrightarrow> dn_id n \<notin> de_target ` set edges
     \<Longrightarrow> dn_id n \<in> set (start_ids nodes edges None)"
  by (auto simp: start_ids_def Let_def)

lemma start_level_zero:
  "v \<in> set (start_ids nodes edges starts) \<Longrightarrow> map_of (calculateLevels nodes edges starts) v = Some 0"
proof -
  assume "v \<in> set (start_ids nodes edges starts)"
  then have "shortest edges (set (start_ids nodes edges starts)) v 0"
    by (simp add: shortest_def)
  then have "map_of (traverse nodes edges starts) v = Some 0"
    by (simp add: traverse_shortest)
  then show ?thesis by (simp add: calculateLevels_lookup)
qed

text \<open>
  Claim C5. In \<open>calculateLevels\<close>, when no start ids are passed every node without an
  incoming edge gets level 0; with any start set, every id whose shortest distance from
  the start set is \<open>d\<close> gets level \<open>d\<close>; the traversal leaves an id unassigned exactly
  when no path from the start set reaches it, and every node it leaves unassigned gets
  the maximum of the levels the traversal assigned (0 when it assigned none); in
  particular a node that no edge mentions is a root at level 0.
\<close>

theorem C5_levels_are_shortest_distances:
  "(\<forall>n \<in> set nodes. dn_id n \<notin> de_target ` set edges
        \<longrightarrow> map_of (calculateLevels nodes edges None) (dn_id n) = Some 0)
   \<and> (\<forall>v d. shortest edges (set (start_ids nodes edges starts)) v d
        \<longrightarrow> map_of (calculateLevels nodes edges starts) v = Some d)
   \<and> (\<forall>v. map_of (traverse nodes edges starts) v = None
        \<longleftrightarrow> (\<forall>d. v \<notin> hops edges (set (start_ids nodes edges starts)) d))
   \<and> (\<forall>n \<in> set nodes. map_of (traverse nodes edges starts) (dn_id n) = None
        \<longrightarrow> map_of (calculateLevels nodes edges starts) (dn_id n)
              = Some (Max (insert 0 (snd ` set (traverse nodes edges starts)))))
   \<and> (\<forall>n \<in> set nodes. (\<forall>e \<in> set edges. de_source e \<noteq> dn_id n \<and> de_target e \<noteq> dn_id n)
        \<longrightarrow> dn_id n \<in> set (start_ids nodes edges None)
            \<and> map_of (calculateLevels nodes edges None) (dn_id n) = Some 0)"
proof (intro conjI ballI allI impI)
  fix n assume "n \<in> set nodes" "dn_id n \<notin> de_target ` set edges"
  then show "map_of (calculateLevels nodes edges None) (dn_id n) = Some 0"
    by (intro start_level_zero root_start)
next
  fix v d assume "shortest edges (set (start_ids nodes edges starts)) v d"
  then have "map_of (traverse nodes edges starts) v = Some d"
    by (simp add: traverse_shortest)
  then show "map_of (calculateLevels nodes edges starts) v = Some d"
    by (simp add: calculateLevels_lookup)
next
  fix v show "map_of (traverse nodes edges starts) v = None
        \<longleftrightarrow> (\<forall>d. v \<notin> hops edges (set (start_ids nodes edges starts)) d)"
    by (rule traverse_unreached)
next
  fix n assume "n \<in> set nodes" "map_of (traverse nodes edges starts) (dn_id n) = None"
  then show "map_of (calculateLevels nodes edges starts) (dn_id n)
              = Some (Max (insert 0 (snd ` set (traverse nodes edges starts))))"
    by (simp add: calculateLevels_lookup max_level_Max)
next
  fix n assume n: "n \<in> set nodes"
    and iso: "\<forall>e \<in> set edges. de_source e \<noteq> dn_id n \<and> de_target e \<noteq> dn_id n"
  then have "dn_id n \<notin> de_target ` set edges" by auto
  with n show "dn_id n \<in> set (start_ids nodes edges None)" by (rule root_start)
  then show "map_of (calculateLevels nodes edges None) (dn_id n) = Some 0"
    by (rule start_level_zero)
qed

definition island_nodes :: "DiagramNode list" where
  "island_nodes = [sample_node ''A'', sample_node ''B'', sample_node ''C'', sample_node ''X'',
                   sample_node ''Y'', sample_node ''O'']"

definition island_edges :: "DiagramEdge list" where
  "island_edges = [sample_edge ''e1'' ''A'' ''B'', sample_edge ''e2'' ''B'' ''C'',
                   sample_edge ''e3'' ''A'' ''C'', sample_edge ''e4'' ''X'' ''Y'',
                   sample_edge ''e5'' ''Y'' ''X'']"

lemma island_traverse:
  "traverse island_nodes island_edges None = [(''A'', 0), (''O'', 0), (''B'', 1), (''C'', 1)]"
  by (simp add: island_nodes_def island_edges_def levels_eval Let_def)

lemma island_starts: "start_ids island_nodes island_edges None = [''A'', ''O'']"
  by (simp add: island_nodes_def island_edges_def start_ids_def sample_node_def sample_edge_def)

theorem C5_witness:
  "map_of (calculateLevels island_nodes island_edges None) ''O'' = Some 0
   \<and> map_of (calculateLevels island_nodes island_edges None) ''C'' = Some 1
   \<and> map_of (calculateLevels island_nodes island_edges None) ''X'' = Some 1"
proof -
  note T = C5_levels_are_shortest_distances [of island_nodes island_edges None]
  have o: "sample_node ''O'' \<in> set island_nodes"
    and x: "sample_node ''X'' \<in> set island_nodes"
    by (simp_all add: island_nodes_def)
  have o_root: "dn_id (sample_node ''O'') \<notin> de_target ` set island_edges"
    by (simp add: island_edges_def sample_node_def sample_edge_def)
  have c_short: "shortest island_edges (set (start_ids island_nodes island_edges None)) ''C'' 1"
    unfolding island_starts shortest_def
    by (auto simp: island_edges_def sample_edge_def intro!: exI [of _ "sample_edge ''e3'' ''A'' ''C''"])
  have x_unreached: "map_of (traverse island_nodes island_edges None) (dn_id (sample_node ''X'')) = None"
    by (simp add: island_traverse sample_node_def)
  have m: "Max (insert 0 (snd ` set (traverse island_nodes island_edges None))) = 1"
    by (simp add: island_traverse)
  from T o o_root have "map_of (calculateLevels island_nodes island_edges None) (dn_id (sample_node ''O'')) = Some 0"
    by blast
  moreover from T c_short have "map_of (calculateLevels island_nodes island_edges None) ''C'' = Some 1"
    by blast
  moreover from T x x_unreached
  have "map_of (calculateLevels island_nodes island_edges None) (dn_id (sample_node ''X''))
      = Some (Max (insert 0 (snd ` set (traverse island_nodes island_edges None))))"
    by blast
  ultimately show ?thesis by (simp add: m sample_node_def)
qed

section \<open>The hierarchical engine adapter: properties\<close>

lemma those_map_member:
  "those (map f xs) = Some ys \<Longrightarrow> y \<in> set ys \<Longrightarrow> \<exists>x \<in> set xs. f x = Some y"
  by (induction xs arbitrary: ys) (auto split: option.splits)

lemma children_of_group_child:
  "set (children_of (group_child n m) k) \<subseteq> insert n (set (children_of m k))"
  by (auto simp: children_of_def group_child_def)

lemma children_of_fold_subset:
  "set (children_of (fold group_child nodes m0) k) \<subseteq> set (children_of m0 k) \<union> set nodes"
proof (induction nodes arbitrary: m0)
  case Nil
  then show ?case by simp
next
  case (Cons n nodes)
  from Cons.IH [of "group_child n m0"] children_of_group_child [of n m0 k]
  show ?case by auto
qed

lemma children_of_subset: "set (children_of (build_childrenMap nodes) k) \<subseteq> set nodes"
  using children_of_fold_subset [of nodes Map.empty k]
  by (simp add: build_childrenMap_def children_of_def)

lemma buildElkNode_container:
  assumes "buildElkNode fuel cm node = Some c" "subnode e c" "elk_children e \<noteq> None"
    and "node \<in> N" "\<And>k. set (children_of cm k) \<subseteq> N"
  shows "\<exists>n \<in> N. elk_id e = node_id n
           \<and> elk_layoutOptions e = Some (container_options (calculateElkTopPadding (node_features n)))"
  using assms(2,1,3,4)
proof (induction e c arbitrary: fuel node rule: subnode.induct)
  case (subnode_self e)
  then obtain fuel' where fuel: "fuel = Suc fuel'" by (cases fuel) auto
  from subnode_self show ?case
    unfolding fuel by (auto simp: Let_def split: if_splits option.splits)
next
  case (subnode_child e cs c x)
  then obtain fuel' where fuel: "fuel = Suc fuel'" by (cases fuel) auto
  from subnode_child.prems(1) subnode_child.hyps(1)
  have cs: "those (map (buildElkNode fuel' cm) (children_of cm (Some (node_id node)))) = Some cs"
    unfolding fuel by (auto simp: Let_def split: if_splits option.splits)
  from those_map_member [OF cs subnode_child.hyps(2)]
  obtain child where child: "child \<in> set (children_of cm (Some (node_id node)))"
      "buildElkNode fuel' cm child = Some c"
    by blast
  from child(1) assms(5) have "child \<in> N" by blast
  from subnode_child.IH [OF child(2) subnode_child.prems(2) this] show ?case .
qed

text \<open>
  When the node ids are pairwise distinct the recursion of \<open>buildElkNode\<close> comes back:
  a child is never one of its own ancestors, so a depth of the number of nodes is
  enough and the request is built.
\<close>

lemma those_map_total:
  "(\<And>x. x \<in> set xs \<Longrightarrow> f x \<noteq> None) \<Longrightarrow> those (map f xs) \<noteq> None"
  by (induction xs) (auto split: option.splits)

lemma children_of_fold_parent:
  assumes "\<And>k c. c \<in> set (children_of m0 k) \<Longrightarrow> node_parentId c = k"
    and "c \<in> set (children_of (fold group_child nodes m0) k)"
  shows "node_parentId c = k"
  using assms
proof (induction nodes arbitrary: m0)
  case Nil
  then show ?case by simp
next
  case (Cons n nodes)
  have "\<And>k c. c \<in> set (children_of (group_child n m0) k) \<Longrightarrow> node_parentId c = k"
    using Cons.prems(1) by (auto simp: children_of_def group_child_def split: if_splits option.splits)
  from Cons.IH [OF this] Cons.prems(2) show ?case by simp
qed

lemma children_of_parent:
  "c \<in> set (children_of (build_childrenMap nodes) k) \<Longrightarrow> node_parentId c = k"
  unfolding build_childrenMap_def
  by (rule children_of_fold_parent [where ?m0.0 = Map.empty]) (simp_all add: children_of_def)

lemma buildElkNode_enough_fuel:
  assumes d: "distinct (map node_id nodes)"
  shows "node \<in> set nodes \<Longrightarrow> node_id node \<notin> V \<Longrightarrow>
         (\<forall>x \<in> set nodes. node_id x \<in> insert (node_id node) V
              \<longrightarrow> node_parentId x = None \<or> (\<exists>v \<in> V. node_parentId x = Some v)) \<Longrightarrow>
         card (node_id ` set nodes - V) \<le> fuel \<Longrightarrow>
         buildElkNode fuel (build_childrenMap nodes) node \<noteq> None"
proof (induction fuel arbitrary: node V)
  case 0
  have "node_id node \<in> node_id ` set nodes - V" using "0.prems"(1,2) by simp
  then have "card (node_id ` set nodes - V) \<noteq> 0" by (auto simp: card_eq_0_iff)
  with "0.prems"(4) show ?case by simp
next
  case (Suc fuel)
  let ?cm = "build_childrenMap nodes"
  let ?V = "insert (node_id node) V"
  have child_ok: "buildElkNode fuel ?cm c \<noteq> None"
    if c: "c \<in> set (children_of ?cm (Some (node_id node)))" for c
  proof -
    from c have cn: "c \<in> set nodes" using children_of_subset by blast
    from c have cp: "node_parentId c = Some (node_id node)" by (rule children_of_parent)
    have fresh: "node_id c \<notin> ?V"
    proof
      assume "node_id c \<in> ?V"
      with Suc.prems(3) cn have "node_parentId c = None \<or> (\<exists>v \<in> V. node_parentId c = Some v)"
        by blast
      with cp Suc.prems(2) show False by auto
    qed
    have same: "x = c" if "x \<in> set nodes" "node_id x = node_id c" for x
      using d that cn by (meson distinct_map inj_onD)
    have closed: "\<forall>x \<in> set nodes. node_id x \<in> insert (node_id c) ?V
        \<longrightarrow> node_parentId x = None \<or> (\<exists>v \<in> ?V. node_parentId x = Some v)"
    proof (intro ballI impI)
      fix x assume x: "x \<in> set nodes" "node_id x \<in> insert (node_id c) ?V"
      show "node_parentId x = None \<or> (\<exists>v \<in> ?V. node_parentId x = Some v)"
      proof (cases "node_id x = node_id c")
        case True
        with x(1) have "x = c" by (rule same)
        with cp show ?thesis by simp
      next
        case False
        with x Suc.prems(3) show ?thesis by blast
      qed
    qed
    have "node_id node \<in> node_id ` set nodes - V" using Suc.prems(1,2) by simp
    then have "card (node_id ` set nodes - ?V) < card (node_id ` set nodes - V)"
      by (metis Diff_insert card_Diff1_less finite_Diff finite_imageI finite_set)
    with Suc.prems(4) have "card (node_id ` set nodes - ?V) \<le> fuel" by simp
    from Suc.IH [OF cn fresh closed this] show ?thesis .
  qed
  then have "those (map (buildElkNode fuel ?cm) (children_of ?cm (Some (node_id node)))) \<noteq> None"
    by (rule those_map_total)
  then show ?case by (auto simp: Let_def)
qed

lemma buildElkGraph_returns:
  assumes "distinct (map node_id nodes)"
  shows "\<exists>g. buildElkGraph (length nodes) nodes edges options = Some g"
proof -
  let ?cm = "build_childrenMap nodes"
  have "buildElkNode (length nodes) ?cm r \<noteq> None" if r: "r \<in> set (children_of ?cm None)" for r
  proof -
    from r have rn: "r \<in> set nodes" using children_of_subset by blast
    from r have rp: "node_parentId r = None" by (rule children_of_parent)
    have same: "x = r" if "x \<in> set nodes" "node_id x = node_id r" for x
      using assms that rn by (meson distinct_map inj_onD)
    have "card (node_id ` set nodes) \<le> card (set nodes)"
      by (rule card_image_le) simp
    also have "\<dots> \<le> length nodes" by (rule card_length)
    finally have "card (node_id ` set nodes - {}) \<le> length nodes" by simp
    moreover have "\<forall>x \<in> set nodes. node_id x \<in> insert (node_id r) {}
        \<longrightarrow> node_parentId x = None \<or> (\<exists>v \<in> {}. node_parentId x = Some v)"
      using same rp by auto
    ultimately show ?thesis
      using buildElkNode_enough_fuel [OF assms rn, of "{}" "length nodes"] by simp
  qed
  then have "those (map (buildElkNode (length nodes) ?cm) (children_of ?cm None)) \<noteq> None"
    by (rule those_map_total)
  then show ?thesis by (auto simp: buildElkGraph_def Let_def)
qed

lemma padding_option:
  "map_of (container_options t) ''elk.padding''
     = Some (''[top='' @ string_of_nat t @ '',left=20,bottom=30,right=20]'')"
  by (simp add: container_options_def)

text \<open>
  Claim C8. Every node of the engine request that has children was built from a node of
  the graph with the same id, and its layout options are the container options whose
  padding has, on top, the size calculator's top padding of that node's content (its
  content height plus the child gap) and the constants 20, 30 and 20 on the left, at
  the bottom and on the right.
\<close>

theorem C8_container_top_padding:
  assumes "buildElkGraph fuel nodes edges options = Some g"
    and "c \<in> set (graph_children g)" and "subnode e c" and "elk_children e \<noteq> None"
  shows "\<exists>n \<in> set nodes. elk_id e = node_id n
     \<and> elk_layoutOptions e = Some (container_options (calculateElkTopPadding (node_features n)))
     \<and> map_of (container_options (calculateElkTopPadding (node_features n))) ''elk.padding''
         = Some (''[top='' @ string_of_nat (calculateContentHeight (node_features n) + childGap)
                 @ '',left=20,bottom=30,right=20]'')"
proof -
  from assms(1) have cs: "those (map (buildElkNode fuel (build_childrenMap nodes))
        (children_of (build_childrenMap nodes) None)) = Some (graph_children g)"
    by (auto simp: buildElkGraph_def Let_def split: option.splits)
  from those_map_member [OF cs assms(2)] obtain root where
    root: "root \<in> set (children_of (build_childrenMap nodes) None)"
      "buildElkNode fuel (build_childrenMap nodes) root = Some c"
    by blast
  from root(1) have "root \<in> set nodes" using children_of_subset by blast
  from buildElkNode_container [OF root(2) assms(3,4) this children_of_subset]
  obtain n where "n \<in> set nodes" "elk_id e = node_id n"
      "elk_layoutOptions e = Some (container_options (calculateElkTopPadding (node_features n)))"
    by blast
  then show ?thesis
    by (auto simp: padding_option calculateElkTopPadding_def)
qed

text \<open>A part with one attribute line and one nested part, as the graph builder returns it.\<close>

definition nested_symbols :: "DiagramSymbol list" where
  "nested_symbols =
     [plain_symbol ''A'' ''A'' ''PartDef'' None,
      (plain_symbol ''x'' ''A::x'' ''AttributeUsage'' (Some ''A''))\<lparr>typedBy := Some ''T''\<rparr>,
      plain_symbol ''B'' ''A::B'' ''PartDef'' (Some ''A'')]"

definition nested_nodes :: "Node list" where
  "nested_nodes = fst (apply_build [''PartDef''] nested_symbols [] all_types_config)"

lemma nested_nodes_value:
  "nested_nodes =
     [\<lparr>node_id = ''A'', node_type = ''PartDef'', node_position = \<lparr>pos_x = 0, pos_y = 0\<rparr>,
       node_data = \<lparr>data_name = ''A'', data_qualifiedName = Some ''A'',
                    data_features = Some [''x : T''], data_typedBy = None, data_direction = None\<rparr>,
       node_style = Some \<lparr>style_width = Some 300, style_height = Some 200\<rparr>,
       node_measured = None, node_parentId = None, node_extent = None\<rparr>,
      \<lparr>node_id = ''A_B'', node_type = ''PartDef'', node_position = \<lparr>pos_x = 0, pos_y = 0\<rparr>,
       node_data = \<lparr>data_name = ''B'', data_qualifiedName = Some ''A::B'',
                    data_features = None, data_typedBy = None, data_direction = None\<rparr>,
       node_style = Some \<lparr>style_width = Some 200, style_height = Some 90\<rparr>,
       node_measured = None, node_parentId = Some ''A'', node_extent = Some ''parent''\<rparr>]"
  by code_simp


definition nested_request :: ElkGraph where
  "nested_request =
     \<lparr>graph_id = ''root'', graph_layoutOptions = [],
      graph_children = [ElkNode ''A'' 300 200 (Some (container_options 150))
                          (Some [ElkNode ''A_B'' 200 90 None None])],
      graph_edges = []\<rparr>"

lemma nested_request_built: "buildElkGraph 2 nested_nodes [] [] = Some nested_request"
  by code_simp

theorem C8_witness:
  "buildElkGraph 2 nested_nodes [] [] = Some nested_request
   \<and> hd (graph_children nested_request) \<in> set (graph_children nested_request)
   \<and> elk_children (hd (graph_children nested_request)) \<noteq> None
   \<and> map_of (the (elk_layoutOptions (hd (graph_children nested_request)))) ''elk.padding''
       = Some ''[top=150,left=20,bottom=30,right=20]''"
proof -
  let ?c = "hd (graph_children nested_request)"
  have c_in: "?c \<in> set (graph_children nested_request)"
    and c_kids: "elk_children ?c \<noteq> None"
    and c_id: "elk_id ?c = ''A''"
    by (simp_all add: nested_request_def)
  from C8_container_top_padding [OF nested_request_built c_in subnode_self c_kids]
  obtain n where n: "n \<in> set nested_nodes" "elk_id ?c = node_id n"
      "elk_layoutOptions ?c = Some (container_options (calculateElkTopPadding (node_features n)))"
      "map_of (container_options (calculateElkTopPadding (node_features n))) ''elk.padding''
         = Some (''[top='' @ string_of_nat (calculateContentHeight (node_features n) + childGap)
                 @ '',left=20,bottom=30,right=20]'')"
    by blast
  have "\<forall>m \<in> set nested_nodes. node_id m = ''A'' \<longrightarrow> node_features m = [''x : T'']"
    by (simp add: nested_nodes_value node_features_def)
  with n(1,2) c_id have "node_features n = [''x : T'']"
    by metis
  then have "calculateContentHeight (node_features n) + childGap = 150"
    by (simp add: content_height_single NODE_SIZING)
  moreover have "string_of_nat 150 = ''150''" by code_simp
  ultimately show ?thesis
    using n(3,4) nested_request_built c_in c_kids by simp
qed

end
